theory Spec2Isabelle
  imports
    Complex_Main
    "HOL-Library.Sublist"
    "HOL-Library.Char_ord"
    "HOL-Library.List_Lexorder"
    "HOL-Library.Multiset"
    "HOL-Library.Log_Nat"
begin

section \<open>Python strings\<close>

text \<open>
  Strings are byte lists, the UTF-8 encoding of the text. The functions of this section are
  \<open>str.lower\<close>, \<open>str.strip\<close> and the regular expression class \<open>\w\<close> on ASCII text:
  \<open>lower\<close> maps \<open>A..Z\<close> to \<open>a..z\<close> and leaves every other byte alone, \<open>strip\<close> removes the
  ASCII white space of Python (\<open>\t \n \v \f \r\<close>, the separators \<open>0x1c..0x1f\<close> and the
  blank), and a word character is a letter, a digit or the underscore. Where the text of a
  query or of a chunk is scored, \<open>str.lower\<close> and the word scanner of \<open>re\<close> over the whole
  character set are taken from outside instead (the fields \<open>w_lower\<close> and
  \<open>w_findall_words\<close> below).
\<close>

definition lower_char :: "char \<Rightarrow> char" where
  "lower_char c =
     (if CHR ''A'' \<le> c \<and> c \<le> CHR ''Z'' then char_of (of_char c + (32::nat)) else c)"

definition lower :: "string \<Rightarrow> string" where
  "lower s = map lower_char s"

definition is_space :: "char \<Rightarrow> bool" where
  "is_space c \<longleftrightarrow>
     c = CHR '' '' \<or> (CHR 0x09 \<le> c \<and> c \<le> CHR 0x0D) \<or> (CHR 0x1C \<le> c \<and> c \<le> CHR 0x1F)"

definition strip :: "string \<Rightarrow> string" where
  "strip s = rev (dropWhile is_space (rev (dropWhile is_space s)))"

definition is_word_char :: "char \<Rightarrow> bool" where
  "is_word_char c \<longleftrightarrow>
     (CHR ''a'' \<le> c \<and> c \<le> CHR ''z'') \<or> (CHR ''A'' \<le> c \<and> c \<le> CHR ''Z'')
     \<or> (CHR ''0'' \<le> c \<and> c \<le> CHR ''9'') \<or> c = CHR ''_''"

text \<open>
  The test \<open>needle in haystack\<close> on strings: \<open>needle\<close> occurs as a contiguous run. On
  UTF-8 encodings this is the test on the characters, since the encoding of a character
  never starts inside the encoding of another one.
\<close>

fun py_in :: "string \<Rightarrow> string \<Rightarrow> bool" where
  "py_in needle [] = (needle = [])"
| "py_in needle (c # cs) = (prefix needle (c # cs) \<or> py_in needle cs)"

text \<open>\<open>sep.join(xs)\<close>.\<close>

fun join :: "string \<Rightarrow> string list \<Rightarrow> string" where
  "join sep [] = []"
| "join sep [x] = x"
| "join sep (x # y # ys) = x @ sep @ join sep (y # ys)"

section \<open>Query expansion\<close>

text \<open>
  The table \<open>action_expansions\<close> of \<open>_expand_query\<close>, in the insertion order in which the
  dictionary is iterated.
\<close>

definition action_expansions :: "(string \<times> string list) list" where
  "action_expansions =
     [(''apply'', [''request'', ''submit'', ''file'']),
      (''download'', [''get'', ''access'', ''view'', ''fetch'']),
      (''leave'', [''vacation'', ''time off'', ''absence'', ''pto'']),
      (''payslip'', [''salary slip'', ''pay stub'', ''salary statement'']),
      (''profile'', [''personal details'', ''employee info'', ''my details'']),
      (''training'', [''learning'', ''course'', ''certification'', ''skill'']),
      (''expense'', [''reimbursement'', ''claim'', ''travel claim'']),
      (''attendance'', [''punch'', ''check in'', ''clock'']),
      (''holiday'', [''calendar'', ''public holiday'', ''company holiday'']),
      (''form-16'', [''tax form'', ''income tax'', ''tds'']),
      (''balance'', [''remaining'', ''available'', ''quota''])]"

text \<open>
  The loop over the table: the synonyms of every keyword that occurs in \<open>q\<close> are appended to
  \<open>expansions\<close>, in table order.
\<close>

fun collect_expansions :: "(string \<times> string list) list \<Rightarrow> string \<Rightarrow> string list \<Rightarrow> string list" where
  "collect_expansions [] q expansions = expansions"
| "collect_expansions ((keyword, synonyms) # rest) q expansions =
     collect_expansions rest q (if py_in keyword q then expansions @ synonyms else expansions)"

text \<open>
  \<open>set(expansions)\<close> is iterated in an order that Python does not fix (string hashes are
  salted per process). The order is a parameter \<open>set_iter\<close>: the list in which the set built
  from a list is iterated. \<open>set_iteration\<close> says what every such order satisfies.
\<close>

definition set_iteration :: "(string list \<Rightarrow> string list) \<Rightarrow> bool" where
  "set_iteration set_iter \<longleftrightarrow> (\<forall>xs. distinct (set_iter xs) \<and> set (set_iter xs) = set xs)"

definition expand_query :: "(string list \<Rightarrow> string list) \<Rightarrow> string \<Rightarrow> string" where
  "expand_query set_iter query =
     (let q = lower (strip query);
          expansions = collect_expansions action_expansions q []
      in if expansions \<noteq> [] then query @ '' '' @ join '' '' (set_iter expansions) else query)"

text \<open>\<open>str(n)\<close> for a Python integer: decimal digits, with a minus sign below zero.\<close>

definition digit_char :: "nat \<Rightarrow> char" where
  "digit_char d = ''0123456789'' ! d"

fun str_nat :: "nat \<Rightarrow> string" where
  "str_nat n = (if n < 10 then [digit_char n] else str_nat (n div 10) @ [digit_char (n mod 10)])"

declare str_nat.simps [simp del]

definition str_int :: "int \<Rightarrow> string" where
  "str_int i = (if i < 0 then ''-'' @ str_nat (nat (- i)) else str_nat (nat i))"

section \<open>Floats\<close>

text \<open>
  A Python float is an IEEE 754 double. A finite double is the rational number it denotes,
  and \<open>double_of x\<close> is the double nearest to the rational \<open>x\<close>, a tie going to the even
  significand: the result of every float operation is \<open>double_of\<close> of the exact result, and a
  literal or an integer is read as its \<open>double_of\<close>. \<open>binade x\<close> is the exponent \<open>e\<close> with
  \<open>2 ^ e \<le> x < 2 ^ (e + 1)\<close>; the spacing of the doubles around \<open>x\<close> is \<open>2 ^ (e - 52)\<close>, and
  \<open>2 ^ - 1074\<close> among the subnormal numbers. Overflow to infinity is left out: the numbers
  that occur are scores, ranks and counts of tokens.
\<close>

definition pow2 :: "int \<Rightarrow> rat" where
  "pow2 e = (if 0 \<le> e then 2 ^ nat e else 1 / 2 ^ nat (- e))"

definition round_half_even :: "rat \<Rightarrow> int" where
  "round_half_even x =
     (let n = \<lfloor>x\<rfloor>; d = x - of_int n
      in if d < 1 / 2 then n else if 1 / 2 < d then n + 1 else if even n then n else n + 1)"

definition binade :: "rat \<Rightarrow> int" where
  "binade x =
     (case quotient_of x of (p, q) \<Rightarrow>
        let e0 = bitlen p - bitlen q in if pow2 e0 \<le> x then e0 else e0 - 1)"

definition double_of :: "rat \<Rightarrow> rat" where
  "double_of x =
     (if x = 0 then 0
      else let ulp = pow2 (max (binade \<bar>x\<bar> - 52) (- 1074))
           in sgn x * of_int (round_half_even (\<bar>x\<bar> / ulp)) * ulp)"

section \<open>Documents, results and the retriever\<close>

text \<open>
  A LangChain \<open>Document\<close> with the two metadata keys that \<open>search\<close> reads; a key that is
  absent from the dictionary is \<open>None\<close>.
\<close>

record document =
  page_content :: string
  md_source :: "string option"
  md_chunk_id :: "int option"

text \<open>
  The dataclass \<open>ActionSearchResult\<close>. A score is a Python float: the rational number
  that the double denotes.
\<close>

record action_search_result =
  content :: string
  source :: string
  score :: rat
  chunk_id :: int

text \<open>What \<open>_build_retrievers\<close> hands to the library: the two retrievers with their \<open>k\<close>
  and the ensemble over them with its weights, sparse retriever first.\<close>

record bm25_retriever_cfg =
  bm25_docs :: "document list"
  bm25_k :: int

record faiss_retriever_cfg =
  faiss_store :: "document list"
  faiss_k :: int

record ensemble_cfg =
  ens_bm25 :: bm25_retriever_cfg
  ens_faiss :: faiss_retriever_cfg
  ens_weights :: "rat list"

text \<open>
  The fields of \<open>MasterActionsRetriever\<close>. The FAISS store is represented by the chunks it
  was built from and the \<open>BM25Okapi\<close> object by its tokenised corpus. The \<open>diskcache\<close> cache
  maps a key to the cached value and the time at which the entry expires.
\<close>

record retriever =
  vector_store :: "document list option"
  bm25 :: "string list list option"
  bm25_retriever :: "bm25_retriever_cfg option"
  faiss_retriever :: "faiss_retriever_cfg option"
  ensemble_retriever :: "ensemble_cfg option"
  documents :: "document list"
  cache_dir :: "string option"
  document_paths :: "string list option"
  s3_version_hash :: "string option"
  index_hash :: "string option"
  search_cache :: "string \<rightharpoonup> (action_search_result list \<times> rat)"
  chunk_size :: int
  chunk_overlap :: int
  top_k :: int
  bm25_weight :: rat
  vector_weight :: rat

text \<open>\<open>__init__\<close>: nothing is built, the search cache being whatever the cache directory
  holds.\<close>

definition init :: "string option \<Rightarrow> string list option \<Rightarrow> string option \<Rightarrow>
    (string \<rightharpoonup> (action_search_result list \<times> rat)) \<Rightarrow> retriever" where
  "init cdir paths s3 cache =
     \<lparr>vector_store = None, bm25 = None, bm25_retriever = None, faiss_retriever = None,
      ensemble_retriever = None, documents = [], cache_dir = cdir, document_paths = paths,
      s3_version_hash = s3, index_hash = None, search_cache = cache,
      chunk_size = 600, chunk_overlap = 150, top_k = 5, bm25_weight = 6 / 10,
      vector_weight = 4 / 10\<rparr>"

section \<open>Scoring and search\<close>

text \<open>\<open>re.findall(r'\b\w+\b', s)\<close> on ASCII text: the maximal runs of word characters of
  \<open>s\<close>, from left to right; \<open>cur\<close> is the run being read.\<close>

fun word_runs :: "string \<Rightarrow> string \<Rightarrow> string list" where
  "word_runs cur [] = (if cur = [] then [] else [cur])"
| "word_runs cur (c # cs) =
     (if is_word_char c then word_runs (cur @ [c]) cs
      else if cur = [] then word_runs [] cs
      else cur # word_runs [] cs)"

definition findall_words :: "string \<Rightarrow> string list" where
  "findall_words s = word_runs [] s"

text \<open>
  What lies outside the retriever at the time of a query: \<open>str.lower\<close> and
  \<open>re.findall(r'\b\w+\b', s)\<close> of the Python library, over the whole character set; the
  iteration order of string sets; the rendering of a score with three decimals; the clock;
  whether the cache backend raises on a read or on a write (with the exception's text); and
  what the ensemble retriever answers to a query (\<open>Inl\<close> when it raises).
\<close>

record world =
  w_lower :: "string \<Rightarrow> string"
  w_findall_words :: "string \<Rightarrow> string list"
  w_set_iter :: "string list \<Rightarrow> string list"
  w_fmt_3f :: "rat \<Rightarrow> string"
  w_now :: rat
  w_cache_get_fault :: "string option"
  w_cache_set_fault :: "string option"
  w_ensemble_invoke :: "string \<Rightarrow> string + document list"

definition stop_words :: "string list" where
  "stop_words = [''a'', ''an'', ''the'', ''is'', ''are'', ''to'', ''for'', ''of'', ''in'', ''on'',
     ''how'', ''what'', ''i'', ''my'', ''can'']"

text \<open>The set \<open>query_tokens\<close>, as a list without repetitions.\<close>

definition query_tokens :: "world \<Rightarrow> string \<Rightarrow> string list" where
  "query_tokens w query =
     filter (\<lambda>t. t \<notin> set stop_words) (remdups (w_findall_words w (w_lower w query)))"

definition action_markers :: "string list" where
  "action_markers = [''link:'', ''steps:'', ''step 1'', ''step 2'', ''click'', ''navigate'',
     ''select'', ''action name:'']"

text \<open>
  The body of the loop \<open>for rank, doc in enumerate(docs)\<close>, in float arithmetic:
  \<open>1.0 / (rank + 1)\<close> divides by the integer read as a float, \<open>0.1 * keyword_hits\<close>
  multiplies the double \<open>0.1\<close> by the count read as a float, and the sum is taken from left
  to right. The integer \<open>0\<close> of the other branch of \<open>action_boost\<close> adds nothing.
\<close>

definition score_doc :: "world \<Rightarrow> string list \<Rightarrow> nat \<Rightarrow> document \<Rightarrow> action_search_result" where
  "score_doc w tokens rank doc =
     (let base_score = double_of (1 / double_of (of_nat rank + 1));
          content_lower = w_lower w (page_content doc);
          keyword_hits = length (filter (\<lambda>token. py_in token content_lower) tokens);
          keyword_boost = double_of (double_of (1 / 10) * double_of (of_nat keyword_hits));
          action_boost =
            (if list_ex (\<lambda>marker. py_in marker content_lower) action_markers
             then double_of (2 / 10) else 0)
      in \<lparr>content = page_content doc,
          source = (case md_source doc of Some s \<Rightarrow> s | None \<Rightarrow> ''Master Actions Guide''),
          score = double_of (double_of (base_score + keyword_boost) + action_boost),
          chunk_id = (case md_chunk_id doc of Some i \<Rightarrow> i | None \<Rightarrow> - 1)\<rparr>)"

fun score_docs :: "world \<Rightarrow> string list \<Rightarrow> nat \<Rightarrow> document list \<Rightarrow> action_search_result list" where
  "score_docs w tokens rank [] = []"
| "score_docs w tokens rank (doc # docs) =
     score_doc w tokens rank doc # score_docs w tokens (Suc rank) docs"

text \<open>\<open>results.sort(key=lambda r: r.score, reverse=True)\<close>: a stable sort by falling
  score.\<close>

definition sort_by_score :: "action_search_result list \<Rightarrow> action_search_result list" where
  "sort_by_score results = sort_key (\<lambda>r. - score r) results"

text \<open>The slice \<open>xs[:k]\<close>; a negative \<open>k\<close> counts from the end.\<close>

definition slice_to :: "'a list \<Rightarrow> int \<Rightarrow> 'a list" where
  "slice_to xs k = (if 0 \<le> k then take (nat k) xs else take (length xs - nat (- k)) xs)"

text \<open>\<open>Cache.get\<close> and \<open>Cache.set\<close> with \<open>expire=3600\<close>: an entry is served while its
  expiry time lies ahead.\<close>

definition cache_get :: "world \<Rightarrow> retriever \<Rightarrow> string \<Rightarrow> string + action_search_result list option" where
  "cache_get w r key =
     (case w_cache_get_fault w of
        Some e \<Rightarrow> Inl e
      | None \<Rightarrow>
          (case search_cache r key of
             None \<Rightarrow> Inr None
           | Some (v, expires) \<Rightarrow> if w_now w < expires then Inr (Some v) else Inr None))"

definition cache_set :: "world \<Rightarrow> retriever \<Rightarrow> string \<Rightarrow> action_search_result list \<Rightarrow> string + retriever" where
  "cache_set w r key v =
     (case w_cache_set_fault w of
        Some e \<Rightarrow> Inl e
      | None \<Rightarrow> Inr (r\<lparr>search_cache := (search_cache r)(key \<mapsto> (v, w_now w + 3600))\<rparr>))"

definition cache_key :: "retriever \<Rightarrow> string \<Rightarrow> int \<Rightarrow> string" where
  "cache_key r expanded_query k =
     ''master_search:'' @ (case index_hash r of None \<Rightarrow> ''None'' | Some h \<Rightarrow> h)
       @ '':'' @ expanded_query @ '':'' @ str_int k"

text \<open>\<open>top_k = top_k or self.top_k\<close>: \<open>None\<close> and \<open>0\<close> give way to the retriever's setting.\<close>

definition effective_k :: "retriever \<Rightarrow> int option \<Rightarrow> int" where
  "effective_k r top_k_arg =
     (case top_k_arg of None \<Rightarrow> top_k r | Some n \<Rightarrow> if n = 0 then top_k r else n)"

text \<open>Scoring, sorting and cutting the documents that the ensemble returned.\<close>

definition rank_results :: "world \<Rightarrow> string \<Rightarrow> document list \<Rightarrow> int \<Rightarrow> action_search_result list" where
  "rank_results w query docs k =
     slice_to (sort_by_score (score_docs w (query_tokens w query) 0 docs)) k"

text \<open>
  \<open>search\<close>. The result is \<open>Inl\<close> with the exception's text when an exception leaves the
  method, and the retriever is returned with its cache as the call leaves it.
\<close>

definition search :: "world \<Rightarrow> retriever \<Rightarrow> string \<Rightarrow> int option \<Rightarrow>
    (string + action_search_result list) \<times> retriever" where
  "search w r query top_k_arg =
     (if vector_store r = None \<or> ensemble_retriever r = None \<or> documents r = [] then (Inr [], r)
      else
        let k = effective_k r top_k_arg;
            expanded_query = expand_query (w_set_iter w) query;
            key = cache_key r expanded_query k
        in case cache_get w r key of
             Inl e \<Rightarrow> (Inl e, r)
           | Inr (Some (c # cs)) \<Rightarrow> (Inr (c # cs), r)
           | Inr _ \<Rightarrow>
               (case w_ensemble_invoke w expanded_query of
                  Inl e \<Rightarrow> (Inr [], r)
                | Inr [] \<Rightarrow> (Inr [], r)
                | Inr docs \<Rightarrow>
                    let results = rank_results w query docs k
                    in (case cache_set w r key results of
                          Inl e \<Rightarrow> (Inl e, r)
                        | Inr r' \<Rightarrow> (Inr results, r'))))"

section \<open>The tool\<close>

record tool =
  tool_retriever :: retriever
  last_sources :: "string list"

definition NO_ACTION_FOUND :: string where
  "NO_ACTION_FOUND = ''NO_ACTION_FOUND''"

text \<open>\<open>max(r.score for r in results)\<close> on a list that is not empty.\<close>

fun best_of :: "action_search_result \<Rightarrow> action_search_result list \<Rightarrow> rat" where
  "best_of r [] = score r"
| "best_of r (x # xs) = max (score r) (best_of x xs)"

text \<open>The lines that the loop \<open>for idx, result in enumerate(results, 1)\<close> appends.\<close>

fun format_results :: "(rat \<Rightarrow> string) \<Rightarrow> nat \<Rightarrow> action_search_result list \<Rightarrow> string" where
  "format_results fmt idx [] = []"
| "format_results fmt idx (result # rest) =
     ''**['' @ str_nat idx @ '']** (Score: '' @ fmt (score result) @ '')'' @ [CHR 0x0A]
       @ content result @ [CHR 0x0A, CHR 0x0A] @ format_results fmt (Suc idx) rest"

text \<open>
  The separator of the source list, as the literal stands in the source file: a blank, the
  three characters U+00E2, U+20AC and U+00A2 in UTF-8, a blank.
\<close>

definition bullet_sep :: string where
  "bullet_sep =
     [CHR '' '', CHR 0xC3, CHR 0xA2, CHR 0xE2, CHR 0x82, CHR 0xAC, CHR 0xC2, CHR 0xA2, CHR '' '']"

text \<open>The text that \<open>_run\<close> builds from a result list, given the sources in the order in
  which their set is iterated.\<close>

definition format_output :: "world \<Rightarrow> action_search_result list \<Rightarrow> string list \<Rightarrow> string" where
  "format_output w results source_list =
     ''Found '' @ str_nat (length results) @ '' relevant action(s):'' @ [CHR 0x0A, CHR 0x0A]
       @ format_results (w_fmt_3f w) 1 results
       @ ''Sources: '' @ join bullet_sep source_list @ [CHR 0x0A]"

text \<open>\<open>_run\<close>: the answer and the tool as the call leaves it.\<close>

definition run :: "world \<Rightarrow> rat \<Rightarrow> tool \<Rightarrow> string \<Rightarrow> string \<times> tool" where
  "run w confidence_threshold t query =
     (let t0 = t\<lparr>last_sources := []\<rparr> in
      if documents (tool_retriever t0) = [] then (NO_ACTION_FOUND, t0)
      else
        case search w (tool_retriever t0) query (Some 5) of
          (Inl e, r') \<Rightarrow> (''Error searching actions: '' @ e, t0\<lparr>tool_retriever := r'\<rparr>)
        | (Inr [], r') \<Rightarrow> (NO_ACTION_FOUND, t0\<lparr>tool_retriever := r'\<rparr>)
        | (Inr (x # xs), r') \<Rightarrow>
            if best_of x xs < confidence_threshold
            then (NO_ACTION_FOUND, t0\<lparr>tool_retriever := r'\<rparr>)
            else
              let source_list = w_set_iter w (map source (x # xs))
              in (format_output w (x # xs) source_list,
                  t0\<lparr>tool_retriever := r', last_sources := source_list\<rparr>))"

text \<open>
  The search cache holds only what \<open>search\<close> stored: every cached list that is not empty
  has a result that scores at least 1. The cache starts empty and \<open>search\<close> is the only
  writer.
\<close>

definition cache_sound :: "retriever \<Rightarrow> bool" where
  "cache_sound r \<longleftrightarrow>
     (\<forall>key v expires. search_cache r key = Some (v, expires) \<longrightarrow> v = [] \<or> (\<exists>x \<in> set v. 1 \<le> score x))"

section \<open>MD5\<close>

text \<open>
  \<open>hashlib.md5\<close>, after RFC 1321, on bytes given as numbers below 256. A 32-bit word is a
  natural number below \<open>2 ^ 32\<close>, with the wrap-around written out (\<open>w32\<close>). Each row of
  \<open>md5_table\<close> describes one of the 64 steps: the number of its round (which selects the
  mixing function), the index of the message word, the rotation and the additive constant.
\<close>

unbundle bit_operations_syntax

definition md5_table :: "(nat \<times> nat \<times> nat \<times> nat) list" where
  "md5_table =
     [
      (0, 0, 7, 0xd76aa478), (0, 1, 12, 0xe8c7b756), (0, 2, 17, 0x242070db), (0, 3, 22, 0xc1bdceee),
      (0, 4, 7, 0xf57c0faf), (0, 5, 12, 0x4787c62a), (0, 6, 17, 0xa8304613), (0, 7, 22, 0xfd469501),
      (0, 8, 7, 0x698098d8), (0, 9, 12, 0x8b44f7af), (0, 10, 17, 0xffff5bb1), (0, 11, 22, 0x895cd7be),
      (0, 12, 7, 0x6b901122), (0, 13, 12, 0xfd987193), (0, 14, 17, 0xa679438e), (0, 15, 22, 0x49b40821),
      (1, 1, 5, 0xf61e2562), (1, 6, 9, 0xc040b340), (1, 11, 14, 0x265e5a51), (1, 0, 20, 0xe9b6c7aa),
      (1, 5, 5, 0xd62f105d), (1, 10, 9, 0x02441453), (1, 15, 14, 0xd8a1e681), (1, 4, 20, 0xe7d3fbc8),
      (1, 9, 5, 0x21e1cde6), (1, 14, 9, 0xc33707d6), (1, 3, 14, 0xf4d50d87), (1, 8, 20, 0x455a14ed),
      (1, 13, 5, 0xa9e3e905), (1, 2, 9, 0xfcefa3f8), (1, 7, 14, 0x676f02d9), (1, 12, 20, 0x8d2a4c8a),
      (2, 5, 4, 0xfffa3942), (2, 8, 11, 0x8771f681), (2, 11, 16, 0x6d9d6122), (2, 14, 23, 0xfde5380c),
      (2, 1, 4, 0xa4beea44), (2, 4, 11, 0x4bdecfa9), (2, 7, 16, 0xf6bb4b60), (2, 10, 23, 0xbebfbc70),
      (2, 13, 4, 0x289b7ec6), (2, 0, 11, 0xeaa127fa), (2, 3, 16, 0xd4ef3085), (2, 6, 23, 0x04881d05),
      (2, 9, 4, 0xd9d4d039), (2, 12, 11, 0xe6db99e5), (2, 15, 16, 0x1fa27cf8), (2, 2, 23, 0xc4ac5665),
      (3, 0, 6, 0xf4292244), (3, 7, 10, 0x432aff97), (3, 14, 15, 0xab9423a7), (3, 5, 21, 0xfc93a039),
      (3, 12, 6, 0x655b59c3), (3, 3, 10, 0x8f0ccc92), (3, 10, 15, 0xffeff47d), (3, 1, 21, 0x85845dd1),
      (3, 8, 6, 0x6fa87e4f), (3, 15, 10, 0xfe2ce6e0), (3, 6, 15, 0xa3014314), (3, 13, 21, 0x4e0811a1),
      (3, 4, 6, 0xf7537e82), (3, 11, 10, 0xbd3af235), (3, 2, 15, 0x2ad7d2bb), (3, 9, 21, 0xeb86d391)]"

definition md5_pad :: "nat list \<Rightarrow> nat list" where
  "md5_pad m =
     (let bits = 8 * length m
      in m @ [128] @ replicate ((119 - length m mod 64) mod 64) 0
           @ [bits mod 256, bits div 256 mod 256, bits div 65536 mod 256,
              bits div 16777216 mod 256, bits div 4294967296 mod 256,
              bits div 1099511627776 mod 256, bits div 281474976710656 mod 256,
              bits div 72057594037927936 mod 256])"

fun le_words :: "nat list \<Rightarrow> nat list" where
  "le_words (b0 # b1 # b2 # b3 # rest) =
     (b0 + 256 * b1 + 65536 * b2 + 16777216 * b3) # le_words rest"
| "le_words _ = []"

definition w32 :: "nat \<Rightarrow> nat" where
  "w32 x = x mod 4294967296"

definition not32 :: "nat \<Rightarrow> nat" where
  "not32 x = 4294967295 - x"

definition rotl32 :: "nat \<Rightarrow> nat \<Rightarrow> nat" where
  "rotl32 n x = w32 (x * 2 ^ n) + x div 2 ^ (32 - n)"

definition md5_mix :: "nat \<Rightarrow> nat \<Rightarrow> nat \<Rightarrow> nat \<Rightarrow> nat" where
  "md5_mix kind b c d =
     (if kind = 0 then (b AND c) OR (not32 b AND d)
      else if kind = 1 then (d AND b) OR (not32 d AND c)
      else if kind = 2 then b XOR c XOR d
      else c XOR (b OR not32 d))"

fun md5_round :: "nat list \<Rightarrow> nat \<times> nat \<times> nat \<times> nat \<Rightarrow> nat \<times> nat \<times> nat \<times> nat
    \<Rightarrow> nat \<times> nat \<times> nat \<times> nat" where
  "md5_round M (kind, g, s, k) (a, b, c, d) =
     (d, w32 (b + rotl32 s (w32 (md5_mix kind b c d + a + k + M ! g))), b, c)"

fun md5_block :: "nat \<times> nat \<times> nat \<times> nat \<Rightarrow> nat list \<Rightarrow> nat \<times> nat \<times> nat \<times> nat" where
  "md5_block (a0, b0, c0, d0) M =
     (case fold (md5_round M) md5_table (a0, b0, c0, d0) of
        (a, b, c, d) \<Rightarrow> (w32 (a0 + a), w32 (b0 + b), w32 (c0 + c), w32 (d0 + d)))"

fun md5_blocks :: "nat \<times> nat \<times> nat \<times> nat \<Rightarrow> nat list \<Rightarrow> nat \<times> nat \<times> nat \<times> nat" where
  "md5_blocks st ws =
     (if length ws < 16 then st else md5_blocks (md5_block st (take 16 ws)) (drop 16 ws))"

declare md5_blocks.simps [simp del]

definition hex_digit :: "nat \<Rightarrow> char" where
  "hex_digit n = ''0123456789abcdef'' ! n"

definition hex_byte :: "nat \<Rightarrow> string" where
  "hex_byte b = [hex_digit (b div 16), hex_digit (b mod 16)]"

definition hex_le :: "nat \<Rightarrow> string" where
  "hex_le w =
     hex_byte (w mod 256) @ hex_byte (w div 256 mod 256) @ hex_byte (w div 65536 mod 256)
       @ hex_byte (w div 16777216 mod 256)"

definition md5_hexdigest :: "string \<Rightarrow> string" where
  "md5_hexdigest s =
     (case md5_blocks (0x67452301, 0xefcdab89, 0x98badcfe, 0x10325476)
             (le_words (md5_pad (map of_char s))) of
        (a, b, c, d) \<Rightarrow> hex_le a @ hex_le b @ hex_le c @ hex_le d)"

section \<open>The version fingerprint\<close>

text \<open>
  \<open>_compute_version_hash\<close> feeds byte strings to an MD5 hasher, which digests their
  concatenation. \<open>version_message\<close> is that concatenation. The file system is the function
  \<open>st_mtime\<close> (\<open>None\<close> where \<open>stat\<close> raises) and \<open>str_float\<close> is \<open>str\<close> on a float.
\<close>

fun path_updates :: "(rat \<Rightarrow> string) \<Rightarrow> (string \<Rightarrow> rat option) \<Rightarrow> string list \<Rightarrow> string" where
  "path_updates str_float st_mtime [] = []"
| "path_updates str_float st_mtime (doc_path # rest) =
     doc_path
       @ (case st_mtime doc_path of Some mtime \<Rightarrow> str_float mtime | None \<Rightarrow> [])
       @ path_updates str_float st_mtime rest"

definition corpus_updates :: "(rat \<Rightarrow> string) \<Rightarrow> (string \<Rightarrow> rat option) \<Rightarrow> retriever \<Rightarrow> string" where
  "corpus_updates str_float st_mtime r =
     (case s3_version_hash r of
        Some (c # cs) \<Rightarrow> c # cs
      | _ \<Rightarrow>
         (case document_paths r of
            Some (p # ps) \<Rightarrow> path_updates str_float st_mtime (sort (p # ps))
          | _ \<Rightarrow> []))"

definition version_message :: "(rat \<Rightarrow> string) \<Rightarrow> (string \<Rightarrow> rat option) \<Rightarrow> retriever \<Rightarrow> string" where
  "version_message str_float st_mtime r =
     corpus_updates str_float st_mtime r
       @ ''chunk:'' @ str_int (chunk_size r) @ ''|overlap:'' @ str_int (chunk_overlap r)
       @ ''master_actions_v2''"

definition compute_version_hash ::
    "(rat \<Rightarrow> string) \<Rightarrow> (string \<Rightarrow> rat option) \<Rightarrow> retriever \<Rightarrow> string" where
  "compute_version_hash str_float st_mtime r =
     md5_hexdigest (version_message str_float st_mtime r)"

section \<open>Building, saving and loading the index\<close>

text \<open>
  \<open>_build_retrievers\<close>. \<open>self.vector_store.as_retriever\<close> raises on \<open>None\<close>; every caller
  sets the store first.
\<close>

definition build_retrievers :: "retriever \<Rightarrow> string + retriever" where
  "build_retrievers r =
     (if documents r = [] then Inr r
      else
        let base_k = max (top_k r) 5 in
        case vector_store r of
          None \<Rightarrow> Inl ''AttributeError''
        | Some store \<Rightarrow>
            let f = \<lparr>faiss_store = store, faiss_k = base_k * 2\<rparr>;
                b = \<lparr>bm25_docs = documents r, bm25_k = base_k * 2\<rparr>;
                e = \<lparr>ens_bm25 = b, ens_faiss = f, ens_weights = [bm25_weight r, vector_weight r]\<rparr>
            in Inr (r\<lparr>faiss_retriever := Some f, bm25_retriever := Some b,
                     ensemble_retriever := Some e\<rparr>))"

text \<open>
  The index directory. \<open>vector_dir\<close> is \<open>None\<close> when the FAISS directory is absent, and
  otherwise what \<open>FAISS.load_local\<close> does with it: it raises (\<open>Inl\<close>) or returns a store.
  \<open>bm25_file\<close> is \<open>None\<close> when the pickle file is absent, and otherwise its modification
  time with what \<open>pickle.load\<close> does with it: it raises or returns the dictionary.
\<close>

record pickled =
  pk_bm25 :: "string list list"
  pk_documents :: "document list"
  pk_index_hash :: "string option"

record disk =
  vector_dir :: "(string + document list) option"
  bm25_file :: "(rat \<times> (string + pickled)) option"

text \<open>\<open>_load_index\<close> at time \<open>t\<close>: the answer and the retriever as the call leaves it.\<close>

definition load_index :: "rat \<Rightarrow> disk \<Rightarrow> retriever \<Rightarrow> string \<Rightarrow> bool \<times> retriever" where
  "load_index t d r current_hash =
     (case (vector_dir d, bm25_file d) of
        (Some faiss, Some (mtime, payload)) \<Rightarrow>
          let index_age_hours = (t - mtime) / 3600 in
          if index_age_hours > 24 then (False, r)
          else
            (case payload of
               Inl e \<Rightarrow> (False, r)
             | Inr data \<Rightarrow>
                 if pk_index_hash data \<noteq> Some current_hash then (False, r)
                 else
                   (case faiss of
                      Inl e \<Rightarrow> (False, r)
                    | Inr store \<Rightarrow>
                        let r1 = r\<lparr>vector_store := Some store, bm25 := Some (pk_bm25 data),
                                   documents := pk_documents data,
                                   index_hash := pk_index_hash data\<rparr>
                        in (case build_retrievers r1 of
                              Inl e \<Rightarrow> (False, r1)
                            | Inr r2 \<Rightarrow> (True, r2))))
      | _ \<Rightarrow> (False, r))"

text \<open>
  How the write of the pickle file ends: it succeeds, \<open>open\<close> raises and the file stays as
  it was, or \<open>pickle.dump\<close> raises after \<open>open(bm25_path, 'wb')\<close> has truncated the file,
  which then cannot be unpickled.
\<close>

datatype pickle_write = Written | OpenFails | DumpFails

text \<open>
  \<open>_save_index\<close> at time \<open>t\<close>. Each of the two writes may fail; the exception is caught and
  the remaining writes are skipped. A failed \<open>save_local\<close> is taken to leave the FAISS
  directory as it was.
\<close>

definition save_index :: "rat \<Rightarrow> bool \<Rightarrow> pickle_write \<Rightarrow> disk \<Rightarrow> retriever \<Rightarrow> disk" where
  "save_index t faiss_write_fails pickle_outcome d r =
     (case (case vector_store r of
              None \<Rightarrow> Some d
            | Some store \<Rightarrow>
                if faiss_write_fails then None else Some (d\<lparr>vector_dir := Some (Inr store)\<rparr>)) of
        None \<Rightarrow> d
      | Some d1 \<Rightarrow>
          (case bm25 r of
             None \<Rightarrow> d1
           | Some index \<Rightarrow>
               (case pickle_outcome of
                  Written \<Rightarrow>
                    d1\<lparr>bm25_file := Some (t, Inr \<lparr>pk_bm25 = index, pk_documents = documents r,
                                                     pk_index_hash = index_hash r\<rparr>)\<rparr>
                | OpenFails \<Rightarrow> d1
                | DumpFails \<Rightarrow> d1\<lparr>bm25_file := Some (t, Inl ''EOFError'')\<rparr>)))"

text \<open>
  What a build reads from outside: the clock, the rendering of floats, the file
  system's modification times, what \<open>_find_master_document\<close> finds (the file's name), what
  the document loader returns for it (the decoded texts, or \<open>Inl\<close> when it raises), the
  placeholder clean-up \<open>_sanitize_content\<close>, the text splitter with its chunk size and
  overlap, and how the writes of \<open>_save_index\<close> end.
\<close>

record build_world =
  bw_now :: rat
  bw_str_float :: "rat \<Rightarrow> string"
  bw_st_mtime :: "string \<Rightarrow> rat option"
  bw_master_document :: "string option"
  bw_loader :: "string \<Rightarrow> string + string list"
  bw_sanitize :: "string \<Rightarrow> string"
  bw_splitter :: "int \<Rightarrow> int \<Rightarrow> document list \<Rightarrow> document list"
  bw_faiss_write_fails :: bool
  bw_pickle_write :: pickle_write

definition load_master_document :: "build_world \<Rightarrow> document list" where
  "load_master_document bw =
     (case bw_master_document bw of
        None \<Rightarrow> []
      | Some name \<Rightarrow>
          (case bw_loader bw name of
             Inl e \<Rightarrow> []
           | Inr texts \<Rightarrow>
               map (\<lambda>text. \<lparr>page_content = bw_sanitize bw text, md_source = Some name,
                             md_chunk_id = None\<rparr>) texts))"

fun add_chunk_ids :: "int \<Rightarrow> document list \<Rightarrow> document list" where
  "add_chunk_ids idx [] = []"
| "add_chunk_ids idx (chunk # chunks) =
     chunk\<lparr>md_chunk_id := Some idx\<rparr> # add_chunk_ids (idx + 1) chunks"

definition chunk_documents :: "build_world \<Rightarrow> retriever \<Rightarrow> document list \<Rightarrow> document list" where
  "chunk_documents bw r docs = add_chunk_ids 0 (bw_splitter bw (chunk_size r) (chunk_overlap r) docs)"

text \<open>\<open>str.split()\<close>: the maximal runs of characters that are not white space.\<close>

fun split_ws :: "string \<Rightarrow> string \<Rightarrow> string list" where
  "split_ws cur [] = (if cur = [] then [] else [cur])"
| "split_ws cur (c # cs) =
     (if \<not> is_space c then split_ws (cur @ [c]) cs
      else if cur = [] then split_ws [] cs
      else cur # split_ws [] cs)"

text \<open>
  \<open>build_index\<close>: the index directory and the retriever as the call leaves them, or \<open>Inl\<close>
  when an exception leaves the method.
\<close>

definition build_index :: "build_world \<Rightarrow> disk \<Rightarrow> retriever \<Rightarrow> bool \<Rightarrow> string + (disk \<times> retriever)" where
  "build_index bw d r force_rebuild =
     (let current_hash = compute_version_hash (bw_str_float bw) (bw_st_mtime bw) r;
          (d1, loaded, r1) =
            (if force_rebuild then (\<lparr>vector_dir = None, bm25_file = None\<rparr>, False, r)
             else let (ok, r') = load_index (bw_now bw) d r current_hash in (d, ok, r'))
      in if loaded then Inr (d1, r1)
         else
           let raw_docs = load_master_document bw in
           if raw_docs = [] then Inr (d1, r1)
           else
             let r2 = r1\<lparr>documents := chunk_documents bw r1 raw_docs\<rparr> in
             if documents r2 = [] then Inr (d1, r2)
             else
               let r3 = r2\<lparr>vector_store := Some (documents r2),
                          bm25 := Some (map (\<lambda>doc. split_ws [] (lower (page_content doc))) (documents r2))\<rparr>
               in case build_retrievers r3 of
                    Inl e \<Rightarrow> Inl e
                  | Inr r4 \<Rightarrow>
                      let r5 = r4\<lparr>index_hash := Some current_hash\<rparr>
                      in Inr (save_index (bw_now bw) (bw_faiss_write_fails bw)
                                (bw_pickle_write bw) d1 r5, r5))"

section \<open>Rank fusion\<close>

text \<open>
  Modelled from the spec: the rank of a chunk in a ranked list, counted from zero, for the
  rank fusion inside the library class \<open>EnsembleRetriever\<close>, which \<open>_build_retrievers\<close>
  constructs but whose code is not part of the repository. \<open>None\<close> when the chunk is absent.
\<close>

fun rank_in :: "'a \<Rightarrow> 'a list \<Rightarrow> nat option" where
  "rank_in c [] = None"
| "rank_in c (x # xs) = (if x = c then Some 0 else map_option Suc (rank_in c xs))"

text \<open>
  Modelled from the spec: what one ranked list contributes to the fused score of a chunk
  inside \<open>EnsembleRetriever\<close> (not part of the repository), \<open>weight / (rank + 1)\<close>, and zero
  for a chunk that is absent from the list.
\<close>

definition rank_term :: "rat \<Rightarrow> 'a list \<Rightarrow> 'a \<Rightarrow> rat" where
  "rank_term weight ranked c =
     (case rank_in c ranked of None \<Rightarrow> 0 | Some rank \<Rightarrow> weight / (of_nat rank + 1))"

text \<open>
  Modelled from the spec: the fused score inside \<open>EnsembleRetriever\<close> (not part of the
  repository). The ensemble asks each retriever for the number of candidates it was
  configured with and adds the contributions of the two ranked lists under the configured
  weights, the sparse list first:
  \<open>bm25_weight / (sparse_rank + 1) + vector_weight / (dense_rank + 1)\<close>.
\<close>

definition fused_score ::
    "ensemble_cfg \<Rightarrow> (string \<Rightarrow> int \<Rightarrow> 'a list) \<Rightarrow> (string \<Rightarrow> int \<Rightarrow> 'a list) \<Rightarrow> string \<Rightarrow> 'a \<Rightarrow> rat" where
  "fused_score e sparse_search dense_search q c =
     rank_term (ens_weights e ! 0) (sparse_search q (bm25_k (ens_bm25 e))) c
       + rank_term (ens_weights e ! 1) (dense_search q (faiss_k (ens_faiss e))) c"

section \<open>Example data\<close>

text \<open>Two chunks: one without any marker or query word, one from an action guide.\<close>

definition doc_a :: document where
  "doc_a = \<lparr>page_content = ''Holiday list for the year'', md_source = None, md_chunk_id = None\<rparr>"

definition doc_b :: document where
  "doc_b = \<lparr>page_content = ''Step 1: open the Leave page. Click Apply.'',
     md_source = Some ''guide.docx'', md_chunk_id = Some 7\<rparr>"


text \<open>A retriever whose index holds the two chunks, with an empty search cache.\<close>

definition built_retriever :: retriever where
  "built_retriever =
     (init None None (Some ''etag-1'') Map.empty)
       \<lparr>vector_store := Some [doc_a, doc_b],
        bm25 := Some [[''holiday'', ''list'', ''for'', ''the'', ''year''], [''step'', ''1:'']],
        ensemble_retriever := Some
          \<lparr>ens_bm25 = \<lparr>bm25_docs = [doc_a, doc_b], bm25_k = 10\<rparr>,
           ens_faiss = \<lparr>faiss_store = [doc_a, doc_b], faiss_k = 10\<rparr>,
           ens_weights = [6 / 10, 4 / 10]\<rparr>,
        documents := [doc_a, doc_b],
        index_hash := Some ''4623443c895f49ad93efbc092783a4c0''\<rparr>"

definition built_tool :: tool where
  "built_tool = \<lparr>tool_retriever = built_retriever, last_sources = []\<rparr>"

text \<open>\<open>f"{x:.3f}"\<close> for a score that is not negative: the value of the double is rounded
  to three decimals, a tie going to the even digit.\<close>

definition three_decimals :: "rat \<Rightarrow> string" where
  "three_decimals x =
     (let n = nat (round_half_even (x * 1000))
      in str_nat (n div 1000) @ ''.''
           @ [digit_char (n div 100 mod 10), digit_char (n div 10 mod 10), digit_char (n mod 10)])"

text \<open>
  Three states of the outside, for ASCII text: one in which the ensemble returns both
  chunks, one in which the cache backend raises on a read, and one in which the ensemble
  raises.
\<close>

definition quiet_world :: world where
  "quiet_world =
     \<lparr>w_lower = lower, w_findall_words = findall_words,
      w_set_iter = remdups, w_fmt_3f = three_decimals, w_now = 1000,
      w_cache_get_fault = None, w_cache_set_fault = None,
      w_ensemble_invoke = (\<lambda>q. Inr [doc_a, doc_b])\<rparr>"

definition locked_world :: world where
  "locked_world = quiet_world\<lparr>w_cache_get_fault := Some ''database is locked''\<rparr>"

definition failing_world :: world where
  "failing_world = quiet_world\<lparr>w_ensemble_invoke := (\<lambda>q. Inl ''index unavailable'')\<rparr>"

text \<open>
  A file system with two documents, and \<open>str\<close> on floats that are whole numbers.
\<close>

definition example_mtime :: "string \<Rightarrow> rat option" where
  "example_mtime p =
     (if p = ''/cache/a.docx'' then Some 1700000000
      else if p = ''/cache/b.docx'' then Some 1700000100
      else None)"

definition str_whole :: "rat \<Rightarrow> string" where
  "str_whole x = str_int \<lfloor>x\<rfloor> @ ''.0''"

text \<open>
  An index directory that is empty, a retriever as \<open>__init__\<close> leaves it when only a cache
  directory is given, and two states of the outside of a build: one in which the cache
  directory holds the action guide, and a later one in which no master document is found.
  The splitter of the example leaves a short document in one piece.
\<close>

definition empty_disk :: disk where
  "empty_disk = \<lparr>vector_dir = None, bm25_file = None\<rparr>"

definition fresh_retriever :: retriever where
  "fresh_retriever = init (Some ''/cache'') None None Map.empty"

definition corpus_world :: build_world where
  "corpus_world =
     \<lparr>bw_now = 1000, bw_str_float = str_whole, bw_st_mtime = example_mtime,
      bw_master_document = Some ''guide.docx'',
      bw_loader = (\<lambda>name. Inr [''Step 1: open the Leave page. Click Apply.'']),
      bw_sanitize = (\<lambda>text. text),
      bw_splitter = (\<lambda>size overlap docs. docs),
      bw_faiss_write_fails = False, bw_pickle_write = Written\<rparr>"


text \<open>
  The chunk, the retriever and the index directory that a build in \<open>corpus_world\<close> leaves
  behind, and a state of the outside of a query in which the ensemble returns that chunk.
\<close>

definition guide_doc :: document where
  "guide_doc = \<lparr>page_content = ''Step 1: open the Leave page. Click Apply.'',
     md_source = Some ''guide.docx'', md_chunk_id = Some 0\<rparr>"

definition guide_tokens :: "string list list" where
  "guide_tokens = [[''step'', ''1:'', ''open'', ''the'', ''leave'', ''page.'', ''click'', ''apply.'']]"

definition guide_retriever :: retriever where
  "guide_retriever =
     fresh_retriever
       \<lparr>vector_store := Some [guide_doc],
        bm25 := Some guide_tokens,
        bm25_retriever := Some \<lparr>bm25_docs = [guide_doc], bm25_k = 10\<rparr>,
        faiss_retriever := Some \<lparr>faiss_store = [guide_doc], faiss_k = 10\<rparr>,
        ensemble_retriever := Some
          \<lparr>ens_bm25 = \<lparr>bm25_docs = [guide_doc], bm25_k = 10\<rparr>,
           ens_faiss = \<lparr>faiss_store = [guide_doc], faiss_k = 10\<rparr>,
           ens_weights = [6 / 10, 4 / 10]\<rparr>,
        documents := [guide_doc],
        index_hash := Some ''267b8b56d3c72538b26c6924b0349c2e''\<rparr>"

definition guide_disk :: disk where
  "guide_disk =
     \<lparr>vector_dir = Some (Inr [guide_doc]),
      bm25_file = Some (1000, Inr \<lparr>pk_bm25 = guide_tokens, pk_documents = [guide_doc],
                                   pk_index_hash = Some ''267b8b56d3c72538b26c6924b0349c2e''\<rparr>)\<rparr>"

section \<open>Properties of strings and of query expansion\<close>

lemma py_in_iff: "py_in n h \<longleftrightarrow> (\<exists>ps ss. h = ps @ n @ ss)"
proof (induction h)
  case Nil
  then show ?case by auto
next
  case (Cons c cs)
  show ?case
  proof
    assume "py_in n (c # cs)"
    then consider "prefix n (c # cs)" | "py_in n cs" by auto
    then show "\<exists>ps ss. c # cs = ps @ n @ ss"
    proof cases
      case 1
      then obtain ss where "c # cs = n @ ss" by (auto simp: prefix_def)
      then have "c # cs = [] @ n @ ss" by simp
      then show ?thesis by blast
    next
      case 2
      with Cons.IH obtain ps ss where "cs = ps @ n @ ss" by blast
      then have "c # cs = (c # ps) @ n @ ss" by simp
      then show ?thesis by blast
    qed
  next
    assume "\<exists>ps ss. c # cs = ps @ n @ ss"
    then obtain ps ss where e: "c # cs = ps @ n @ ss" by blast
    show "py_in n (c # cs)"
    proof (cases ps)
      case Nil
      with e have "prefix n (c # cs)" by (simp add: prefix_def)
      then show ?thesis by simp
    next
      case (Cons p ps')
      with e have "cs = ps' @ n @ ss" by simp
      with Cons.IH have "py_in n cs" by blast
      then show ?thesis by simp
    qed
  qed
qed

lemma py_in_lower: "py_in n h \<Longrightarrow> py_in (lower n) (lower h)"
  unfolding py_in_iff lower_def by (metis map_append)

lemma dropWhile_keeps:
  assumes "n \<noteq> []" "\<not> P (hd n)"
  shows "\<exists>ps'. dropWhile P (ps @ n @ ss) = ps' @ n @ ss"
proof (induction ps)
  case Nil
  from assms obtain a n' where "n = a # n'" by (cases n) auto
  with assms have "dropWhile P ([] @ n @ ss) = [] @ n @ ss" by simp
  then show ?case by blast
next
  case (Cons p ps)
  then show ?case by (cases "P p") (auto intro: exI[of _ "p # ps"])
qed

lemma py_in_rev: "py_in n h \<Longrightarrow> py_in (rev n) (rev h)"
  unfolding py_in_iff by (metis append.assoc rev_append)

lemma py_in_dropWhile:
  assumes "py_in n h" "n \<noteq> []" "\<not> P (hd n)"
  shows "py_in n (dropWhile P h)"
proof -
  from assms(1) obtain ps ss where "h = ps @ n @ ss" unfolding py_in_iff by blast
  moreover obtain ps' where "dropWhile P (ps @ n @ ss) = ps' @ n @ ss"
    using dropWhile_keeps[of n P ps ss] assms(2,3) by blast
  ultimately show ?thesis unfolding py_in_iff by metis
qed

lemma py_in_strip:
  assumes "py_in n h" "n \<noteq> []" "\<not> is_space (hd n)" "\<not> is_space (last n)"
  shows "py_in n (strip h)"
proof -
  have 1: "py_in n (dropWhile is_space h)" using assms py_in_dropWhile by blast
  have 2: "py_in (rev n) (rev (dropWhile is_space h))" using 1 py_in_rev by blast
  have "hd (rev n) = last n" using assms(2) by (simp add: hd_rev)
  then have 3: "py_in (rev n) (dropWhile is_space (rev (dropWhile is_space h)))"
    using py_in_dropWhile[OF 2] assms by simp
  show ?thesis using py_in_rev[OF 3] by (simp add: strip_def)
qed

lemma collect_expansions_eq:
  "collect_expansions tbl q acc = acc @ concat (map snd (filter (\<lambda>(k, ss). py_in k q) tbl))"
  by (induction tbl q acc rule: collect_expansions.induct) auto

lemma set_collect_expansions:
  "set (collect_expansions tbl q []) = (\<Union>(k, ss) \<in> set tbl. if py_in k q then set ss else {})"
  by (auto simp: collect_expansions_eq split: if_splits)

lemma py_in_appendI: "py_in n h \<Longrightarrow> py_in n (ps @ h @ ss)"
  unfolding py_in_iff by (metis append.assoc)

lemma py_in_refl: "py_in n n"
  unfolding py_in_iff by (metis append_Nil append_Nil2)

lemma py_in_join: "x \<in> set xs \<Longrightarrow> py_in x (join sep xs)"
proof (induction sep xs rule: join.induct)
  case (1 sep)
  then show ?case by simp
next
  case (2 sep y)
  then show ?case by (simp add: py_in_refl)
next
  case (3 sep a b bs)
  show ?case
  proof (cases "x = a")
    case True
    have "join sep (a # b # bs) = [] @ a @ (sep @ join sep (b # bs))" by simp
    then show ?thesis unfolding py_in_iff True by blast
  next
    case False
    with 3 have "py_in x (join sep (b # bs))" by simp
    then show ?thesis using py_in_appendI[of x "join sep (b # bs)" "a @ sep" "[]"] by simp
  qed
qed

text \<open>
  C9. Query expansion only appends. Whatever order the set of synonyms is iterated in, the
  expanded string starts with the query as it was given; it is the query itself when no
  keyword occurs, and otherwise the query, a blank, and the synonyms joined by blanks, each
  once, the synonyms being exactly those of the table's keywords that occur in the stripped,
  lower-cased query. A query that contains \<open>apply\<close> and \<open>leave\<close> expands to a string that
  contains \<open>request\<close> and \<open>submit\<close>.
\<close>

theorem expand_query_additive:
  assumes "set_iteration set_iter"
  shows "prefix query (expand_query set_iter query)
    \<and> (\<exists>syns. distinct syns
           \<and> set syns = (\<Union>(k, ss) \<in> set action_expansions.
                            if py_in k (lower (strip query)) then set ss else {})
           \<and> expand_query set_iter query =
               (if syns = [] then query else query @ '' '' @ join '' '' syns))
    \<and> (py_in ''apply'' query \<and> py_in ''leave'' query \<longrightarrow>
           py_in ''request'' (expand_query set_iter query)
           \<and> py_in ''submit'' (expand_query set_iter query))"
proof (intro conjI)
  define q where "q = lower (strip query)"
  define ex where "ex = collect_expansions action_expansions q []"
  have eq: "expand_query set_iter query =
      (if ex \<noteq> [] then query @ '' '' @ join '' '' (set_iter ex) else query)"
    by (simp add: expand_query_def q_def ex_def Let_def)
  have si: "distinct (set_iter ex)" "set (set_iter ex) = set ex"
    using assms by (simp_all add: set_iteration_def)
  show "prefix query (expand_query set_iter query)"
    by (simp add: eq)
  have nil: "set_iter ex = [] \<longleftrightarrow> ex = []"
    using si(2) by (metis set_empty)
  have "distinct (set_iter ex)
        \<and> set (set_iter ex) = (\<Union>(k, ss) \<in> set action_expansions.
                            if py_in k (lower (strip query)) then set ss else {})
        \<and> expand_query set_iter query =
               (if set_iter ex = [] then query else query @ '' '' @ join '' '' (set_iter ex))"
    using si nil by (simp add: eq ex_def q_def set_collect_expansions)
  then show "\<exists>syns. distinct syns
           \<and> set syns = (\<Union>(k, ss) \<in> set action_expansions.
                            if py_in k (lower (strip query)) then set ss else {})
           \<and> expand_query set_iter query =
               (if syns = [] then query else query @ '' '' @ join '' '' syns)"
    by blast
  show "py_in ''apply'' query \<and> py_in ''leave'' query \<longrightarrow>
           py_in ''request'' (expand_query set_iter query)
           \<and> py_in ''submit'' (expand_query set_iter query)"
  proof
    assume a: "py_in ''apply'' query \<and> py_in ''leave'' query"
    have "py_in ''apply'' (strip query)"
      by (rule py_in_strip) (use a in \<open>simp_all add: is_space_def\<close>)
    then have "py_in (lower ''apply'') q"
      unfolding q_def by (rule py_in_lower)
    then have ap: "py_in ''apply'' q"
      by (simp add: lower_def lower_char_def)
    have "(''apply'', [''request'', ''submit'', ''file'']) \<in> set action_expansions"
      by (simp add: action_expansions_def)
    with ap have sub: "{''request'', ''submit''} \<subseteq> set ex"
      unfolding ex_def set_collect_expansions by fastforce
    then have ne: "ex \<noteq> []" by auto
    from sub si have "''request'' \<in> set (set_iter ex)" "''submit'' \<in> set (set_iter ex)"
      by auto
    then have "py_in ''request'' (join '' '' (set_iter ex))" "py_in ''submit'' (join '' '' (set_iter ex))"
      by (simp_all add: py_in_join)
    then show "py_in ''request'' (expand_query set_iter query)
           \<and> py_in ''submit'' (expand_query set_iter query)"
      using ne py_in_appendI[of _ "join '' '' (set_iter ex)" "query @ '' ''" "[]"]
      by (simp add: eq)
  qed
qed

lemma remdups_iter: "set_iteration remdups"
  by (simp add: set_iteration_def)

theorem expand_query_additive_witness:
  "set_iteration remdups
   \<and> py_in ''apply'' ''how do I apply for leave'' \<and> py_in ''leave'' ''how do I apply for leave''
   \<and> expand_query remdups ''how do I apply for leave'' =
       ''how do I apply for leave request submit file vacation time off absence pto''
   \<and> prefix ''how do I apply for leave'' (expand_query remdups ''how do I apply for leave'')
   \<and> py_in ''request'' (expand_query remdups ''how do I apply for leave'')
   \<and> py_in ''submit'' (expand_query remdups ''how do I apply for leave'')"
proof -
  have a: "py_in ''apply'' ''how do I apply for leave'' \<and> py_in ''leave'' ''how do I apply for leave''"
    by code_simp
  have e: "expand_query remdups ''how do I apply for leave'' =
       ''how do I apply for leave request submit file vacation time off absence pto''"
    by code_simp
  show ?thesis
    using expand_query_additive[OF remdups_iter, of "''how do I apply for leave''"] a e remdups_iter
    by blast
qed

section \<open>Floats\<close>

lemma pow2_powi: "pow2 e = 2 powi e"
proof (cases "0 \<le> e")
  case True
  then show ?thesis by (simp add: pow2_def power_int_def)
next
  case False
  then have "2 powi e = (1 / 2 :: rat) ^ nat (- e)"
    by (simp add: power_int_def)
  also have "\<dots> = 1 / 2 ^ nat (- e)" by (rule power_one_over)
  finally show ?thesis using False by (simp only: pow2_def if_False)
qed

lemma pow2_pos: "0 < pow2 e"
  by (simp add: pow2_def)

lemma pow2_mono: "a \<le> b \<Longrightarrow> pow2 a \<le> pow2 b"
  unfolding pow2_powi by (simp add: power_int_increasing)

lemma pow2_0: "pow2 0 = 1"
  by (simp add: pow2_def)

lemma round_half_even_ge:
  assumes "of_int n \<le> x"
  shows "n \<le> round_half_even x"
proof -
  from assms have "n \<le> \<lfloor>x\<rfloor>" by (simp add: le_floor_iff)
  then show ?thesis by (auto simp: round_half_even_def Let_def)
qed

text \<open>The exponent that \<open>binade\<close> computes from the bit lengths of numerator and
  denominator does not lie above the number.\<close>

lemma binade_le:
  assumes "0 < x"
  shows "pow2 (binade x) \<le> x"
proof -
  obtain p q where pq: "quotient_of x = (p, q)" by (cases "quotient_of x") auto
  then have q: "0 < q" and x: "x = of_int p / of_int q"
    using quotient_of_denom_pos quotient_of_div by blast+
  with assms have p: "0 < p" by (simp add: zero_less_divide_iff)
  let ?e0 = "bitlen p - bitlen q"
  show ?thesis
  proof (cases "pow2 ?e0 \<le> x")
    case True
    with pq show ?thesis by (simp add: binade_def Let_def)
  next
    case False
    have pb: "(2::int) ^ nat (bitlen p - 1) \<le> p" using bitlen_bounds[OF p] by simp
    have qb: "q < (2::int) ^ nat (bitlen q)" using bitlen_bounds[OF q] by simp
    have bp: "1 \<le> bitlen p" using p by (simp add: bitlen_alt_def)
    have bq: "1 \<le> bitlen q" using q by (simp add: bitlen_alt_def)
    have "pow2 (?e0 - 1) = 2 powi (bitlen p - 1) / 2 powi (bitlen q)"
      unfolding pow2_powi by (simp add: power_int_diff)
    also have "\<dots> = of_int (2 ^ nat (bitlen p - 1)) / of_int (2 ^ nat (bitlen q))"
      using bp bq by (simp add: power_int_def)
    also have "\<dots> \<le> of_int p / of_int (2 ^ nat (bitlen q))"
      using pb by (simp add: divide_right_mono flip: of_int_power)
    also have "\<dots> \<le> of_int p / of_int q"
    proof -
      have "(of_int q :: rat) \<le> of_int (2 ^ nat (bitlen q))" using qb by (simp flip: of_int_power)
      moreover have "(0::rat) < of_int q" using q by simp
      moreover have "(0::rat) \<le> of_int p" using p by simp
      ultimately show ?thesis by (simp add: frac_le)
    qed
    finally have "pow2 (?e0 - 1) \<le> x" using x by simp
    with False pq show ?thesis by (simp add: binade_def Let_def)
  qed
qed

lemma double_of_nonneg:
  assumes "0 \<le> x"
  shows "0 \<le> double_of x"
proof (cases "x = 0")
  case True
  then show ?thesis by (simp add: double_of_def)
next
  case False
  with assms have x: "0 < x" by simp
  let ?u = "pow2 (max (binade \<bar>x\<bar> - 52) (- 1074))"
  have "(of_int 0 :: rat) \<le> \<bar>x\<bar> / ?u" using pow2_pos[of "max (binade \<bar>x\<bar> - 52) (- 1074)"] by simp
  then have "0 \<le> round_half_even (\<bar>x\<bar> / ?u)" by (rule round_half_even_ge)
  then show ?thesis
    using x pow2_pos[of "max (binade \<bar>x\<bar> - 52) (- 1074)"] by (simp add: double_of_def Let_def)
qed

text \<open>Rounding to a double does not take a number from above 1 to below 1.\<close>

lemma double_of_ge_one:
  assumes "1 \<le> x"
  shows "1 \<le> double_of x"
proof -
  from assms have x: "0 < x" "\<bar>x\<bar> = x" "sgn x = 1" "x \<noteq> 0" by simp_all
  let ?k = "max (binade x - 52) (- 1074)"
  let ?u = "pow2 ?k"
  let ?m = "round_half_even (x / ?u)"
  have u: "0 < ?u" by (rule pow2_pos)
  have f: "double_of x = of_int ?m * ?u" using x by (simp add: double_of_def Let_def)
  have "1 \<le> of_int ?m * ?u"
  proof (cases "?k \<le> 0")
    case True
    then have uk: "?u = 1 / 2 ^ nat (- ?k)" by (simp add: pow2_def)
    have "of_int (2 ^ nat (- ?k)) \<le> x / ?u"
      unfolding uk using assms by simp
    then have "2 ^ nat (- ?k) \<le> ?m" by (rule round_half_even_ge)
    then have "(of_int (2 ^ nat (- ?k)) :: rat) \<le> of_int ?m" by (simp only: of_int_le_iff)
    then have "(2 ^ nat (- ?k) :: rat) \<le> of_int ?m" by simp
    then show ?thesis unfolding uk by (simp add: pos_le_divide_eq)
  next
    case False
    then have k: "0 \<le> ?k" "?k = binade x - 52" by linarith+
    have "?u \<le> pow2 (binade x)" unfolding k(2) by (rule pow2_mono) simp
    also have "\<dots> \<le> x" using binade_le[OF x(1)] .
    finally have "of_int 1 \<le> x / ?u" using u by (simp add: pos_le_divide_eq)
    then have "1 \<le> ?m" by (rule round_half_even_ge)
    then have m: "(1::rat) \<le> of_int ?m" by simp
    have "pow2 0 \<le> ?u" using k(1) by (rule pow2_mono)
    then have "1 \<le> ?u" by (simp add: pow2_0)
    with m have "1 * 1 \<le> of_int ?m * ?u" by (intro mult_mono) simp_all
    then show ?thesis by simp
  qed
  with f show ?thesis by simp
qed

lemma double_of_one: "double_of 1 = 1"
  by code_simp

text \<open>The doubles \<open>0.1\<close> and \<open>0.2\<close>, and the sum \<open>0.5 + 0.1 * 2 + 0.2\<close> as Python computes
  it: \<open>0.8999999999999999\<close>.\<close>

lemma double_of_examples:
  "double_of (1 / 10) = 3602879701896397 / 36028797018963968"
  "double_of (2 / 10) = 3602879701896397 / 18014398509481984"
  "double_of (double_of (double_of (1 / double_of 2) + double_of (double_of (1 / 10) * double_of 2))
      + double_of (2 / 10)) = 2026619832316723 / 2251799813685248"
  by code_simp+

section \<open>Scoring\<close>

lemma score_docs_length: "length (score_docs w tokens n docs) = length docs"
  by (induction docs arbitrary: n) auto

lemma score_docs_nth:
  "rank < length docs \<Longrightarrow>
   score_docs w tokens n docs ! rank = score_doc w tokens (n + rank) (docs ! rank)"
proof (induction docs arbitrary: n rank)
  case Nil
  then show ?case by simp
next
  case (Cons d ds)
  show ?case
  proof (cases rank)
    case 0
    then show ?thesis by simp
  next
    case (Suc m)
    with Cons.prems have "m < length ds" by simp
    from Cons.IH[OF this, of "Suc n"] Suc show ?thesis by simp
  qed
qed

lemma query_tokens_distinct: "distinct (query_tokens w query)"
  by (simp add: query_tokens_def)

lemma query_tokens_set:
  "set (query_tokens w query) = set (w_findall_words w (w_lower w query)) - set stop_words"
  by (auto simp: query_tokens_def)

lemma keyword_hits_card:
  "length (filter P (query_tokens w query)) =
     card {t \<in> set (w_findall_words w (w_lower w query)) - set stop_words. P t}"
proof -
  have "distinct (filter P (query_tokens w query))"
    using query_tokens_distinct by simp
  then have "length (filter P (query_tokens w query)) = card (set (filter P (query_tokens w query)))"
    by (rule distinct_card[symmetric])
  also have "set (filter P (query_tokens w query)) =
      {t \<in> set (w_findall_words w (w_lower w query)) - set stop_words. P t}"
    using query_tokens_set by auto
  finally show ?thesis .
qed

lemma score_doc_score:
  "score (score_doc w tokens rank doc) =
     double_of (double_of
        (double_of (1 / double_of (of_nat rank + 1))
         + double_of (double_of (1 / 10)
             * double_of (of_nat (length (filter (\<lambda>token. py_in token (w_lower w (page_content doc))) tokens)))))
       + (if list_ex (\<lambda>marker. py_in marker (w_lower w (page_content doc))) action_markers
          then double_of (2 / 10) else 0))"
  by (simp add: score_doc_def Let_def)

text \<open>
  C6. The candidate at rank \<open>rank\<close> (counted from zero) of the list that the ensemble
  returns is given, in the float arithmetic of the program, the score \<open>1.0 / (rank + 1)\<close>,
  plus \<open>0.1\<close> times the number of distinct tokens of the lower-cased query that are no stop
  words and occur in the lower-cased chunk text, plus \<open>0.2\<close> when the lower-cased chunk text
  contains one of the action markers. Every operation yields the double nearest to its exact
  result, the sum being taken from left to right, and lower-casing and the word scanner are
  those of the Python library.
\<close>

theorem rescored_value:
  assumes "rank < length docs"
  shows "score (score_docs w (query_tokens w query) 0 docs ! rank) =
     double_of (double_of
        (double_of (1 / double_of (of_nat rank + 1))
         + double_of (double_of (1 / 10)
             * double_of (of_nat (card {t \<in> set (w_findall_words w (w_lower w query)) - set stop_words.
                                         py_in t (w_lower w (page_content (docs ! rank)))}))))
       + (if \<exists>marker \<in> set action_markers. py_in marker (w_lower w (page_content (docs ! rank)))
          then double_of (2 / 10) else 0))"
  using assms
  by (simp add: score_docs_nth score_doc_score keyword_hits_card list_ex_iff)

lemma example_tokens:
  "query_tokens quiet_world ''How do I apply for leave?'' = [''do'', ''apply'', ''leave'']"
  by code_simp

lemma example_scores:
  "map score (score_docs quiet_world (query_tokens quiet_world ''How do I apply for leave?'') 0
     [doc_a, doc_b]) = [1, 2026619832316723 / 2251799813685248]"
  by code_simp

theorem rescored_value_witness:
  "(1::nat) < length [doc_a, doc_b]
   \<and> card {t \<in> set (w_findall_words quiet_world (w_lower quiet_world ''How do I apply for leave?''))
               - set stop_words.
             py_in t (w_lower quiet_world (page_content ([doc_a, doc_b] ! 1)))} = 2
   \<and> (\<exists>marker \<in> set action_markers.
         py_in marker (w_lower quiet_world (page_content ([doc_a, doc_b] ! 1))))
   \<and> score (score_docs quiet_world (query_tokens quiet_world ''How do I apply for leave?'') 0
         [doc_a, doc_b] ! 1)
       = double_of (double_of (double_of (1 / double_of 2) + double_of (double_of (1 / 10) * double_of 2))
           + double_of (2 / 10))
   \<and> score (score_docs quiet_world (query_tokens quiet_world ''How do I apply for leave?'') 0
         [doc_a, doc_b] ! 1)
       = 2026619832316723 / 2251799813685248"
proof -
  let ?q = "''How do I apply for leave?''"
  have l: "(1::nat) < length [doc_a, doc_b]" by simp
  have m: "\<exists>marker \<in> set action_markers.
      py_in marker (w_lower quiet_world (page_content ([doc_a, doc_b] ! 1)))"
    unfolding list_ex_iff[symmetric] by code_simp
  have "length (filter (\<lambda>t. py_in t (w_lower quiet_world (page_content ([doc_a, doc_b] ! 1))))
      (query_tokens quiet_world ?q)) = 2"
    by code_simp
  then have c: "card {t \<in> set (w_findall_words quiet_world (w_lower quiet_world ?q)) - set stop_words.
             py_in t (w_lower quiet_world (page_content ([doc_a, doc_b] ! 1)))} = 2"
    unfolding keyword_hits_card .
  have two: "(of_nat (1::nat) + 1 :: rat) = 2" "(of_nat (2::nat) :: rat) = 2" by simp_all
  from rescored_value[OF l, of quiet_world ?q]
  have s: "score (score_docs quiet_world (query_tokens quiet_world ?q) 0 [doc_a, doc_b] ! 1)
       = double_of (double_of (double_of (1 / double_of 2) + double_of (double_of (1 / 10) * double_of 2))
           + double_of (2 / 10))"
    unfolding c using m by (simp only: if_True two)
  from l c m s show ?thesis unfolding double_of_examples(3)[symmetric] by blast
qed

section \<open>Search and the confidence gate\<close>

lemma best_of_Max: "best_of x xs = Max (score ` set (x # xs))"
proof (induction xs arbitrary: x)
  case Nil
  then show ?case by simp
next
  case (Cons y ys)
  have "Max (score ` set (x # y # ys)) = max (score x) (Max (score ` set (y # ys)))"
    by (simp add: max.commute)
  with Cons show ?case by simp
qed

lemma set_sort_by_score: "set (sort_by_score xs) = set xs"
  by (simp add: sort_by_score_def)

lemma sort_by_score_Nil: "sort_by_score xs = [] \<longleftrightarrow> xs = []"
  by (metis length_0_conv length_sort sort_by_score_def)

lemma hd_sort_by_score:
  assumes "y \<in> set xs"
  shows "score y \<le> score (hd (sort_by_score xs))"
proof -
  have s: "sorted (map (\<lambda>r. - score r) (sort_by_score xs))"
    by (simp add: sort_by_score_def)
  from assms have ne: "sort_by_score xs \<noteq> []"
    by (auto simp: sort_by_score_Nil)
  then obtain h t where ht: "sort_by_score xs = h # t"
    by (cases "sort_by_score xs") auto
  from assms have "y \<in> set (h # t)"
    using set_sort_by_score[of xs] ht by simp
  with s ht have "- score h \<le> - score y"
    by auto
  with ht show ?thesis by simp
qed

lemma slice_to_take: "\<exists>n. slice_to xs k = take n xs"
  by (auto simp: slice_to_def)

lemma slice_to_hd:
  assumes "slice_to xs k \<noteq> []"
  shows "hd (slice_to xs k) = hd xs" "hd xs \<in> set (slice_to xs k)" "set (slice_to xs k) \<subseteq> set xs"
proof -
  obtain n where n: "slice_to xs k = take n xs" using slice_to_take by blast
  with assms have "0 < n" "xs \<noteq> []" by (cases n; auto)+
  then show "hd (slice_to xs k) = hd xs" using n by simp
  then show "hd xs \<in> set (slice_to xs k)" using assms by (metis hd_in_set)
  show "set (slice_to xs k) \<subseteq> set xs" using n by (metis set_take_subset)
qed

text \<open>The candidate at rank 0 scores at least 1: its base score is the double 1, the
  boosts are not negative, and rounding keeps the sums from falling below 1.\<close>

lemma score_doc_first:
  "1 \<le> score (score_doc w tokens 0 doc)"
proof -
  let ?kb = "double_of (double_of (1 / 10)
      * double_of (of_nat (length (filter (\<lambda>token. py_in token (w_lower w (page_content doc))) tokens))))"
  let ?ab = "if list_ex (\<lambda>marker. py_in marker (w_lower w (page_content doc))) action_markers
      then double_of (2 / 10) else (0::rat)"
  have base: "double_of (1 / double_of (of_nat 0 + 1)) = 1"
    by (simp add: double_of_one)
  have "0 \<le> double_of (1 / 10) * double_of (of_nat (length (filter (\<lambda>token. py_in token (w_lower w (page_content doc))) tokens)))"
    by (intro mult_nonneg_nonneg double_of_nonneg) simp_all
  then have kb: "0 \<le> ?kb" by (rule double_of_nonneg)
  have ab: "0 \<le> ?ab" by (simp add: double_of_nonneg)
  from kb have "1 \<le> double_of (1 + ?kb)" by (intro double_of_ge_one) simp
  with ab have "1 \<le> double_of (double_of (1 + ?kb) + ?ab)" by (intro double_of_ge_one) simp
  then show ?thesis unfolding score_doc_score base .
qed

lemma fresh_results_best:
  assumes "docs \<noteq> []"
    and "results = slice_to (sort_by_score (score_docs w tokens 0 docs)) k"
    and "results \<noteq> []"
  shows "\<exists>x \<in> set results. 1 \<le> score x"
proof -
  let ?scored = "score_docs w tokens 0 docs"
  from assms(1) obtain d ds where "docs = d # ds" by (cases docs) auto
  then have first: "score_doc w tokens 0 d \<in> set ?scored" by simp
  have "1 \<le> score (score_doc w tokens 0 d)"
    by (rule score_doc_first)
  also have "\<dots> \<le> score (hd (sort_by_score ?scored))"
    using hd_sort_by_score[OF first] .
  finally have "1 \<le> score (hd (sort_by_score ?scored))" .
  moreover have "hd (sort_by_score ?scored) \<in> set results"
    using slice_to_hd(2)[of "sort_by_score ?scored" k] assms(2,3) by simp
  ultimately show ?thesis by blast
qed

lemma search_unbuilt:
  assumes "vector_store r = None \<or> ensemble_retriever r = None \<or> documents r = []"
  shows "search w r query k = (Inr [], r)"
  using assms unfolding search_def by auto

text \<open>What a call of \<open>search\<close> that returns a list which is not empty has done.\<close>

lemma search_nonempty_cases:
  assumes "search w r query k = (Inr results, r')" and "results \<noteq> []"
  shows "(r' = r \<and> (\<exists>expires. search_cache r
              (cache_key r (expand_query (w_set_iter w) query) (effective_k r k)) = Some (results, expires)))
       \<or> (\<exists>docs. docs \<noteq> []
             \<and> w_ensemble_invoke w (expand_query (w_set_iter w) query) = Inr docs
             \<and> results = rank_results w query docs (effective_k r k)
             \<and> r' = r\<lparr>search_cache := (search_cache r)
                  (cache_key r (expand_query (w_set_iter w) query) (effective_k r k) \<mapsto>
                     (results, w_now w + 3600))\<rparr>)"
proof -
  have built: "\<not> (vector_store r = None \<or> ensemble_retriever r = None \<or> documents r = [])"
  proof
    assume u: "vector_store r = None \<or> ensemble_retriever r = None \<or> documents r = []"
    from search_unbuilt[OF u, of w query k] assms show False by simp
  qed
  show ?thesis
    using assms built
    unfolding search_def cache_get_def cache_set_def Let_def
    by (auto split: if_splits option.splits sum.splits list.splits prod.splits)
qed

lemma search_documents:
  assumes "search w r query k = (Inr results, r')" and "results \<noteq> []"
  shows "documents r \<noteq> []"
  using assms search_unbuilt[of r w query k] by auto

lemma Max_ge_1:
  assumes "\<exists>x \<in> set results. (1::rat) \<le> score x"
  shows "1 \<le> Max (score ` set results)"
proof -
  from assms obtain x where x: "x \<in> set results" "1 \<le> score x" by blast
  then have "score x \<le> Max (score ` set results)" by simp
  with x show ?thesis by linarith
qed

lemma cache_sound_update:
  assumes "cache_sound r" and "v = [] \<or> (\<exists>x \<in> set v. 1 \<le> score x)"
  shows "cache_sound (r\<lparr>search_cache := (search_cache r)(key \<mapsto> (v, e))\<rparr>)"
  using assms unfolding cache_sound_def by auto

lemma search_best:
  assumes "cache_sound r" and "search w r query k = (Inr results, r')" and "results \<noteq> []"
  shows "(\<exists>x \<in> set results. 1 \<le> score x) \<and> cache_sound r'"
proof -
  from search_nonempty_cases[OF assms(2,3)]
  consider (hit) key expires where "r' = r" "search_cache r key = Some (results, expires)"
    | (fresh) docs key n where "docs \<noteq> []"
        "results = slice_to (sort_by_score (score_docs w (query_tokens w query) 0 docs)) n"
        "r' = r\<lparr>search_cache := (search_cache r)(key \<mapsto> (results, w_now w + 3600))\<rparr>"
    unfolding rank_results_def by blast
  then show ?thesis
  proof cases
    case hit
    with assms(1,3) show ?thesis unfolding cache_sound_def by blast
  next
    case fresh
    from fresh_results_best[OF fresh(1,2) assms(3)] have b: "\<exists>x \<in> set results. 1 \<le> score x" .
    with cache_sound_update[OF assms(1), of results] fresh(3) show ?thesis by simp
  qed
qed

lemma run_on_results:
  assumes "search w (tool_retriever t) query (Some 5) = (Inr results, r')" and "results \<noteq> []"
  shows "fst (run w confidence_threshold t query) =
     (if Max (score ` set results) < confidence_threshold then NO_ACTION_FOUND
      else format_output w results (w_set_iter w (map source results)))"
proof -
  from assms(2) obtain x xs where xs: "results = x # xs" by (cases results) auto
  have d: "documents (tool_retriever t) \<noteq> []"
    using search_documents[OF assms] .
  show ?thesis
    using assms(1) d unfolding run_def Let_def xs best_of_Max[symmetric]
    by (simp split: if_splits)
qed

lemma format_output_prefix: "prefix ''Found '' (format_output w results sl)"
  by (simp add: format_output_def)

lemma format_output_not_sentinel: "format_output w results sl \<noteq> NO_ACTION_FOUND"
  by (simp add: format_output_def NO_ACTION_FOUND_def)

lemma search_error:
  assumes "search w r query k = (Inl e, r')"
  shows "(w_cache_get_fault w = Some e \<or> w_cache_set_fault w = Some e) \<and> r' = r"
  using assms
  unfolding search_def cache_get_def cache_set_def Let_def
  by (auto split: if_splits option.splits sum.splits list.splits prod.splits)

lemma search_invoke_raises:
  assumes "cache_get w r (cache_key r (expand_query (w_set_iter w) query) (effective_k r k)) = Inr None"
    and "w_ensemble_invoke w (expand_query (w_set_iter w) query) = Inl e"
  shows "search w r query k = (Inr [], r)"
  using assms unfolding search_def Let_def by simp

lemma run_unbuilt:
  assumes "documents (tool_retriever t) = []"
  shows "run w confidence_threshold t query = (NO_ACTION_FOUND, t\<lparr>last_sources := []\<rparr>)"
  using assms unfolding run_def Let_def by simp

lemma run_on_error:
  assumes "documents (tool_retriever t) \<noteq> []"
    and "search w (tool_retriever t) query (Some 5) = (Inl e, r')"
  shows "fst (run w confidence_threshold t query) = ''Error searching actions: '' @ e"
  using assms unfolding run_def Let_def by simp

lemma run_on_empty:
  assumes "search w (tool_retriever t) query (Some 5) = (Inr [], r')"
  shows "fst (run w confidence_threshold t query) = NO_ACTION_FOUND"
  using assms unfolding run_def Let_def by simp

text \<open>
  C1. When the search of \<open>_run\<close> returns a list that is not empty and whose highest score
  lies strictly below the confidence threshold, \<open>_run\<close> answers \<open>NO_ACTION_FOUND\<close>.
\<close>

theorem confidence_gate:
  assumes "search w (tool_retriever t) query (Some 5) = (Inr results, r')"
    and "results \<noteq> []"
    and "Max (score ` set results) < confidence_threshold"
  shows "fst (run w confidence_threshold t query) = NO_ACTION_FOUND"
  using run_on_results[OF assms(1,2), of confidence_threshold] assms(3) by simp

lemma quiet_search:
  "fst (search quiet_world built_retriever ''How do I apply for leave?'' (Some 5)) =
   Inr [\<lparr>content = ''Holiday list for the year'', source = ''Master Actions Guide'',
          score = 1, chunk_id = - 1\<rparr>,
        \<lparr>content = ''Step 1: open the Leave page. Click Apply.'', source = ''guide.docx'',
          score = 2026619832316723 / 2251799813685248, chunk_id = 7\<rparr>]"
  by code_simp

theorem confidence_gate_witness:
  "fst (search quiet_world (tool_retriever built_tool) ''How do I apply for leave?'' (Some 5)) =
     Inr [\<lparr>content = ''Holiday list for the year'', source = ''Master Actions Guide'',
            score = 1, chunk_id = - 1\<rparr>,
          \<lparr>content = ''Step 1: open the Leave page. Click Apply.'', source = ''guide.docx'',
            score = 2026619832316723 / 2251799813685248, chunk_id = 7\<rparr>]
   \<and> Max (score ` set [\<lparr>content = ''Holiday list for the year'', source = ''Master Actions Guide'',
            score = 1, chunk_id = - 1\<rparr>,
          \<lparr>content = ''Step 1: open the Leave page. Click Apply.'', source = ''guide.docx'',
            score = 2026619832316723 / 2251799813685248, chunk_id = 7\<rparr>]) < (3 / 2 :: rat)
   \<and> fst (run quiet_world (3 / 2) built_tool ''How do I apply for leave?'') = NO_ACTION_FOUND"
proof -
  let ?results = "[\<lparr>content = ''Holiday list for the year'', source = ''Master Actions Guide'',
            score = 1, chunk_id = - 1\<rparr>,
          \<lparr>content = ''Step 1: open the Leave page. Click Apply.'', source = ''guide.docx'',
            score = 2026619832316723 / 2251799813685248, chunk_id = 7\<rparr>]"
  have s: "fst (search quiet_world (tool_retriever built_tool) ''How do I apply for leave?'' (Some 5)) = Inr ?results"
    using quiet_search by (simp add: built_tool_def)
  then have s': "search quiet_world (tool_retriever built_tool) ''How do I apply for leave?'' (Some 5) =
      (Inr ?results, snd (search quiet_world (tool_retriever built_tool) ''How do I apply for leave?'' (Some 5)))"
    by (metis prod.collapse)
  have ne: "?results \<noteq> []" by simp
  have m: "Max (score ` set ?results) < (3 / 2 :: rat)" by simp
  from confidence_gate[OF s' ne m] s m show ?thesis by blast
qed

text \<open>
  C2. Let the search cache hold only what \<open>search\<close> stored. Whenever \<open>search\<close> returns a list
  that is not empty, its highest score is at least 1 and the cache still holds only what
  \<open>search\<close> stored; and when the call is the one that \<open>_run\<close> makes, \<open>_run\<close> with the
  default threshold \<open>0.3\<close> answers with the formatted results, never with \<open>NO_ACTION_FOUND\<close>.
\<close>

theorem search_best_score:
  assumes "cache_sound r"
    and "search w r query k = (Inr results, r')"
    and "results \<noteq> []"
  shows "1 \<le> Max (score ` set results)
    \<and> cache_sound r'
    \<and> (k = Some 5 \<longrightarrow>
         fst (run w (3 / 10) \<lparr>tool_retriever = r, last_sources = ls\<rparr> query) =
           format_output w results (w_set_iter w (map source results))
         \<and> fst (run w (3 / 10) \<lparr>tool_retriever = r, last_sources = ls\<rparr> query) \<noteq> NO_ACTION_FOUND)"
proof (intro conjI impI)
  from search_best[OF assms] have b: "\<exists>x \<in> set results. 1 \<le> score x" and c: "cache_sound r'"
    by simp_all
  from b show m: "1 \<le> Max (score ` set results)" by (rule Max_ge_1)
  from c show "cache_sound r'" .
  assume k: "k = Some 5"
  let ?t = "\<lparr>tool_retriever = r, last_sources = ls\<rparr>"
  have s: "search w (tool_retriever ?t) query (Some 5) = (Inr results, r')"
    using assms(2) k by simp
  from m have "\<not> Max (score ` set results) < 3 / 10" by simp
  with run_on_results[OF s assms(3), of "3 / 10"]
  show o: "fst (run w (3 / 10) ?t query) = format_output w results (w_set_iter w (map source results))"
    by simp
  show "fst (run w (3 / 10) ?t query) \<noteq> NO_ACTION_FOUND"
    unfolding o by (rule format_output_not_sentinel)
qed

lemma cache_sound_built: "cache_sound built_retriever"
  by (simp add: cache_sound_def built_retriever_def init_def)

theorem search_best_score_witness:
  "cache_sound built_retriever
   \<and> fst (search quiet_world built_retriever ''How do I apply for leave?'' (Some 5)) =
     Inr [\<lparr>content = ''Holiday list for the year'', source = ''Master Actions Guide'',
            score = 1, chunk_id = - 1\<rparr>,
          \<lparr>content = ''Step 1: open the Leave page. Click Apply.'', source = ''guide.docx'',
            score = 2026619832316723 / 2251799813685248, chunk_id = 7\<rparr>]
   \<and> (1 :: rat) \<le> Max (score ` set [\<lparr>content = ''Holiday list for the year'',
            source = ''Master Actions Guide'', score = 1, chunk_id = - 1\<rparr>,
          \<lparr>content = ''Step 1: open the Leave page. Click Apply.'', source = ''guide.docx'',
            score = 2026619832316723 / 2251799813685248, chunk_id = 7\<rparr>])
   \<and> cache_sound (snd (search quiet_world built_retriever ''How do I apply for leave?'' (Some 5)))
   \<and> fst (run quiet_world (3 / 10) \<lparr>tool_retriever = built_retriever, last_sources = []\<rparr>
          ''How do I apply for leave?'') \<noteq> NO_ACTION_FOUND"
proof -
  let ?results = "[\<lparr>content = ''Holiday list for the year'', source = ''Master Actions Guide'',
            score = 1, chunk_id = - 1\<rparr>,
          \<lparr>content = ''Step 1: open the Leave page. Click Apply.'', source = ''guide.docx'',
            score = 2026619832316723 / 2251799813685248, chunk_id = 7\<rparr>]"
  let ?q = "''How do I apply for leave?''"
  have s: "search quiet_world built_retriever ?q (Some 5) =
      (Inr ?results, snd (search quiet_world built_retriever ?q (Some 5)))"
    using quiet_search by (metis prod.collapse)
  have ne: "?results \<noteq> []" by simp
  from search_best_score[OF cache_sound_built s ne, of "[]"] cache_sound_built quiet_search
  show ?thesis by (simp add: format_output_not_sentinel)
qed

text \<open>
  The answers of \<open>_run\<close>: the sentinel, a formatted list of results that is not empty, or,
  when the cache backend raises during the search, \<open>Error searching actions:\<close> followed by
  the text of that exception. When the cache backend does not raise, the answer is the
  sentinel or the formatted results. When the cache has no entry for the query and the
  ensemble retriever raises, the answer is the sentinel.
\<close>

lemma run_outcomes:
  "(fst (run w confidence_threshold t query) = NO_ACTION_FOUND
    \<or> (\<exists>results. results \<noteq> []
          \<and> fst (run w confidence_threshold t query) =
              format_output w results (w_set_iter w (map source results)))
    \<or> (\<exists>e. (w_cache_get_fault w = Some e \<or> w_cache_set_fault w = Some e)
          \<and> fst (run w confidence_threshold t query) = ''Error searching actions: '' @ e))
   \<and> (w_cache_get_fault w = None \<and> w_cache_set_fault w = None \<longrightarrow>
        fst (run w confidence_threshold t query) = NO_ACTION_FOUND
        \<or> (\<exists>results. results \<noteq> []
             \<and> fst (run w confidence_threshold t query) =
                 format_output w results (w_set_iter w (map source results))))
   \<and> (cache_get w (tool_retriever t)
          (cache_key (tool_retriever t) (expand_query (w_set_iter w) query)
             (effective_k (tool_retriever t) (Some 5))) = Inr None
        \<and> w_ensemble_invoke w (expand_query (w_set_iter w) query) = Inl e
        \<longrightarrow> fst (run w confidence_threshold t query) = NO_ACTION_FOUND)"
proof -
  let ?out = "fst (run w confidence_threshold t query)"
  let ?r = "tool_retriever t"
  have three: "?out = NO_ACTION_FOUND
    \<or> (\<exists>results. results \<noteq> [] \<and> ?out = format_output w results (w_set_iter w (map source results)))
    \<or> (\<exists>e. (w_cache_get_fault w = Some e \<or> w_cache_set_fault w = Some e)
          \<and> ?out = ''Error searching actions: '' @ e)"
  proof (cases "documents ?r = []")
    case True
    then show ?thesis by (simp add: run_unbuilt)
  next
    case False
    obtain res r' where s: "search w ?r query (Some 5) = (res, r')"
      by (cases "search w ?r query (Some 5)") auto
    show ?thesis
    proof (cases res)
      case (Inl e)
      with s search_error[of w ?r query "Some 5" e r'] run_on_error[OF False, of w query e r']
      show ?thesis by blast
    next
      case (Inr results)
      show ?thesis
      proof (cases "results = []")
        case True
        with s Inr run_on_empty[of w t query r'] show ?thesis by simp
      next
        case ne: False
        from s Inr have "search w ?r query (Some 5) = (Inr results, r')" by simp
        from run_on_results[OF this ne, of confidence_threshold] ne
        show ?thesis by (cases "Max (score ` set results) < confidence_threshold") auto
      qed
    qed
  qed
  have quiet: "w_cache_get_fault w = None \<and> w_cache_set_fault w = None \<longrightarrow>
        ?out = NO_ACTION_FOUND
        \<or> (\<exists>results. results \<noteq> [] \<and> ?out = format_output w results (w_set_iter w (map source results)))"
    using three by auto
  have raises: "cache_get w ?r (cache_key ?r (expand_query (w_set_iter w) query)
             (effective_k ?r (Some 5))) = Inr None
        \<and> w_ensemble_invoke w (expand_query (w_set_iter w) query) = Inl e
        \<longrightarrow> ?out = NO_ACTION_FOUND"
  proof
    assume a: "cache_get w ?r (cache_key ?r (expand_query (w_set_iter w) query)
             (effective_k ?r (Some 5))) = Inr None
        \<and> w_ensemble_invoke w (expand_query (w_set_iter w) query) = Inl e"
    then have "search w ?r query (Some 5) = (Inr [], ?r)"
      using search_invoke_raises[of w ?r query "Some 5" e] by simp
    then show "?out = NO_ACTION_FOUND" by (rule run_on_empty)
  qed
  from three quiet raises show ?thesis by blast
qed

lemma run_outcomes_example:
  "w_cache_get_fault failing_world = None \<and> w_cache_set_fault failing_world = None
   \<and> cache_get failing_world (tool_retriever built_tool)
        (cache_key (tool_retriever built_tool)
           (expand_query (w_set_iter failing_world) ''How do I apply for leave?'')
           (effective_k (tool_retriever built_tool) (Some 5))) = Inr None
   \<and> w_ensemble_invoke failing_world
        (expand_query (w_set_iter failing_world) ''How do I apply for leave?'') = Inl ''index unavailable''
   \<and> fst (run failing_world (3 / 10) built_tool ''How do I apply for leave?'') = NO_ACTION_FOUND"
proof -
  have f: "w_cache_get_fault failing_world = None \<and> w_cache_set_fault failing_world = None"
    by (simp add: failing_world_def quiet_world_def)
  have c: "cache_get failing_world (tool_retriever built_tool)
        (cache_key (tool_retriever built_tool)
           (expand_query (w_set_iter failing_world) ''How do I apply for leave?'')
           (effective_k (tool_retriever built_tool) (Some 5))) = Inr None"
    by (simp add: cache_get_def failing_world_def quiet_world_def built_tool_def
        built_retriever_def init_def)
  have i: "w_ensemble_invoke failing_world
        (expand_query (w_set_iter failing_world) ''How do I apply for leave?'') = Inl ''index unavailable''"
    by (simp add: failing_world_def)
  from run_outcomes[of failing_world "3 / 10" built_tool "''How do I apply for leave?''" "''index unavailable''"]
    f c i show ?thesis by blast
qed

text \<open>
  C3. The documentation of \<open>_run\<close> promises the formatted results or \<open>NO_ACTION_FOUND\<close>, and
  \<open>search\<close> turns an exception of the ensemble retriever into a miss. The read and the write
  of the search cache lie outside that handler: with a built index and a cache backend that
  raises on the read, \<open>_run\<close> answers with the text of the exception, which is neither the
  sentinel nor a formatted result list.
\<close>

theorem run_cache_error:
  "fst (run locked_world (3 / 10) built_tool ''How do I apply for leave?'') =
     ''Error searching actions: database is locked''
   \<and> fst (run locked_world (3 / 10) built_tool ''How do I apply for leave?'') \<noteq> NO_ACTION_FOUND
   \<and> \<not> prefix ''Found '' (fst (run locked_world (3 / 10) built_tool ''How do I apply for leave?''))"
proof -
  have e: "fst (run locked_world (3 / 10) built_tool ''How do I apply for leave?'') =
     ''Error searching actions: database is locked''"
    by code_simp
  show ?thesis unfolding e by (simp add: NO_ACTION_FOUND_def)
qed

section \<open>The version fingerprint\<close>

text \<open>Reading a decimal string back.\<close>

lemma of_char_digit:
  assumes "d < 10"
  shows "of_char (digit_char d) = (48 + d :: nat)"
proof -
  from assms have "d = 0 \<or> d = 1 \<or> d = 2 \<or> d = 3 \<or> d = 4 \<or> d = 5 \<or> d = 6 \<or> d = 7
      \<or> d = 8 \<or> d = 9"
    by arith
  then show ?thesis
    by (elim disjE) (simp_all add: digit_char_def)
qed

lemma str_nat_digits: "c \<in> set (str_nat n) \<Longrightarrow> \<exists>d < 10. c = digit_char d"
proof (induction n rule: str_nat.induct)
  case (1 n)
  show ?case
  proof (cases "n < 10")
    case True
    with 1 show ?thesis by (auto simp: str_nat.simps[of n])
  next
    case False
    from 1(2) False have "c \<in> set (str_nat (n div 10)) \<or> c = digit_char (n mod 10)"
      by (auto simp: str_nat.simps[of n])
    then show ?thesis
    proof
      assume "c \<in> set (str_nat (n div 10))"
      with 1(1) False show ?thesis by simp
    next
      assume "c = digit_char (n mod 10)"
      moreover have "n mod 10 < 10" by simp
      ultimately show ?thesis by blast
    qed
  qed
qed

lemma str_nat_value:
  "foldl (\<lambda>acc c. 10 * acc + (of_char c - 48)) (0::nat) (str_nat n) = n"
proof (induction n rule: str_nat.induct)
  case (1 n)
  show ?case
  proof (cases "n < 10")
    case True
    then show ?thesis by (simp add: str_nat.simps[of n] of_char_digit)
  next
    case False
    with 1 have "foldl (\<lambda>acc c. 10 * acc + (of_char c - 48)) (0::nat) (str_nat (n div 10)) = n div 10"
      by simp
    with False show ?thesis
      by (simp add: str_nat.simps[of n] of_char_digit)
  qed
qed

lemma str_nat_inj: "str_nat m = str_nat n \<Longrightarrow> m = n"
  by (metis str_nat_value)

lemma str_nat_not_Nil: "str_nat n \<noteq> []"
  by (simp add: str_nat.simps[of n])

lemma digit_char_neq:
  assumes "d < 10"
  shows "digit_char d \<noteq> CHR ''-''" and "digit_char d \<noteq> CHR ''|''"
proof -
  have v: "of_char (digit_char d) = (48 + d :: nat)" using assms by (rule of_char_digit)
  show "digit_char d \<noteq> CHR ''-''"
  proof
    assume "digit_char d = CHR ''-''"
    then have "of_char (digit_char d) = (of_char CHR ''-'' :: nat)" by simp
    with v show False by simp
  qed
  show "digit_char d \<noteq> CHR ''|''"
  proof
    assume "digit_char d = CHR ''|''"
    then have "of_char (digit_char d) = (of_char CHR ''|'' :: nat)" by simp
    with v assms show False by simp
  qed
qed

lemma str_nat_no_bar: "CHR ''|'' \<notin> set (str_nat n)" "CHR ''-'' \<notin> set (str_nat n)"
  using str_nat_digits digit_char_neq by metis+

lemma str_int_no_bar: "CHR ''|'' \<notin> set (str_int i)"
  using str_nat_no_bar(1) by (simp add: str_int_def)

lemma str_int_inj: "str_int i = str_int j \<Longrightarrow> i = j"
proof -
  assume e: "str_int i = str_int j"
  have hd_nonneg: "hd (str_nat n) \<noteq> CHR ''-''" for n
    using str_nat_no_bar(2)[of n] str_nat_not_Nil[of n] by (metis hd_in_set)
  show "i = j"
  proof (cases "i < 0")
    case True
    show ?thesis
    proof (cases "j < 0")
      case jn: True
      with True e have "str_nat (nat (- i)) = str_nat (nat (- j))" by (simp add: str_int_def)
      then have "nat (- i) = nat (- j)" by (rule str_nat_inj)
      with True jn show ?thesis by simp
    next
      case False
      with True e have "CHR ''-'' # str_nat (nat (- i)) = str_nat (nat j)" by (simp add: str_int_def)
      then have "hd (str_nat (nat j)) = CHR ''-''" by (metis list.sel(1))
      with hd_nonneg show ?thesis by blast
    qed
  next
    case False
    show ?thesis
    proof (cases "j < 0")
      case True
      with False e have "str_nat (nat i) = CHR ''-'' # str_nat (nat (- j))" by (simp add: str_int_def)
      then have "hd (str_nat (nat i)) = CHR ''-''" by (metis list.sel(1))
      with hd_nonneg show ?thesis by blast
    next
      case jp: False
      with False e have "str_nat (nat i) = str_nat (nat j)" by (simp add: str_int_def)
      then have "nat i = nat j" by (rule str_nat_inj)
      with False jp show ?thesis by simp
    qed
  qed
qed

text \<open>The part of the hashed message that renders the configuration determines it.\<close>

lemma takeWhile_str_int:
  "takeWhile (\<lambda>c. c \<noteq> CHR ''|'') (str_int x @ CHR ''|'' # rest) = str_int x"
proof -
  have "\<forall>c \<in> set (str_int x). c \<noteq> CHR ''|''"
    using str_int_no_bar[of x] by blast
  then show ?thesis by simp
qed

lemma config_text_inj:
  assumes "str_int a @ ''|overlap:'' @ str_int b @ tail = str_int a' @ ''|overlap:'' @ str_int b' @ tail"
  shows "a = a' \<and> b = b'"
proof -
  have l: "takeWhile (\<lambda>c. c \<noteq> CHR ''|'') (str_int x @ ''|overlap:'' @ rest) = str_int x" for x rest
    using takeWhile_str_int[of x "''overlap:'' @ rest"] by simp
  have sa: "str_int a = str_int a'"
    using arg_cong[OF assms, of "takeWhile (\<lambda>c. c \<noteq> CHR ''|'')"] unfolding l .
  then have a: "a = a'" by (rule str_int_inj)
  from assms sa have "str_int b @ tail = str_int b' @ tail" by simp
  then have "str_int b = str_int b'" by simp
  then have "b = b'" by (rule str_int_inj)
  with a show ?thesis by simp
qed

lemma version_message_config:
  assumes "corpus_updates sf st r1 = corpus_updates sf' st' r2"
    and "version_message sf st r1 = version_message sf' st' r2"
  shows "chunk_size r1 = chunk_size r2 \<and> chunk_overlap r1 = chunk_overlap r2"
proof -
  from assms have "str_int (chunk_size r1) @ ''|overlap:'' @ str_int (chunk_overlap r1) @ ''master_actions_v2''
     = str_int (chunk_size r2) @ ''|overlap:'' @ str_int (chunk_overlap r2) @ ''master_actions_v2''"
    by (simp add: version_message_def)
  then show ?thesis by (rule config_text_inj)
qed

lemma replicate_eval: "replicate (numeral v) x = x # replicate (numeral v - 1) x"
  by (simp add: numeral_eq_Suc)

lemmas md5_eval = md5_hexdigest_def md5_blocks.simps md5_table_def md5_mix_def md5_pad_def
  w32_def not32_def rotl32_def hex_le_def hex_byte_def hex_digit_def replicate_eval Let_def

lemma md5_etag_150:
  "md5_hexdigest ''etag-1chunk:600|overlap:150master_actions_v2'' = ''4623443c895f49ad93efbc092783a4c0''"
  by (simp add: md5_eval)

lemma md5_etag_151:
  "md5_hexdigest ''etag-1chunk:600|overlap:151master_actions_v2'' = ''f5f9ea2673e79ed88e774899dbf416c2''"
  by (simp add: md5_eval)

lemma md5_paths:
  "md5_hexdigest ''/cache/a.docx1700000000.0/cache/b.docx1700000100.0chunk:600|overlap:150master_actions_v2'' = ''b93eb2d3340bdf87a481e25a040cb046''"
  by (simp add: md5_eval)

lemma msg_built:
  "version_message sf st built_retriever = ''etag-1chunk:600|overlap:150master_actions_v2''"
  by (simp add: version_message_def corpus_updates_def built_retriever_def init_def str_int_def str_nat.simps digit_char_def)

lemma sort_paths: "sort [''/cache/b.docx'', ''/cache/a.docx''] = [''/cache/a.docx'', ''/cache/b.docx'']"
  by code_simp

lemma str_whole_1: "str_whole 1700000000 = ''1700000000.0''" "str_whole 1700000100 = ''1700000100.0''"
  by (simp_all add: str_whole_def str_int_def str_nat.simps digit_char_def)


lemma path_updates_cong:
  assumes "\<forall>p \<in> set ps. st p = st' p"
  shows "path_updates sf st ps = path_updates sf st' ps"
  using assms by (induction ps) auto

lemma sort_perm: "mset xs = mset ys \<Longrightarrow> sort xs = sort (ys :: string list)"
  by (rule properties_for_sort) simp_all

lemma corpus_updates_perm:
  assumes "s3_version_hash r1 = s3_version_hash r2"
    and "document_paths r1 = document_paths r2
         \<or> (\<exists>ps1 ps2. document_paths r1 = Some ps1 \<and> document_paths r2 = Some ps2
               \<and> mset ps1 = mset ps2)"
    and "\<forall>p. st p = st' p"
  shows "corpus_updates sf st r1 = corpus_updates sf st' r2"
proof -
  from assms(3) have st: "st = st'" by auto
  from assms(2) show ?thesis
  proof
    assume "document_paths r1 = document_paths r2"
    with assms(1) st show ?thesis
      by (simp add: corpus_updates_def split: option.splits list.splits)
  next
    assume "\<exists>ps1 ps2. document_paths r1 = Some ps1 \<and> document_paths r2 = Some ps2
               \<and> mset ps1 = mset ps2"
    then obtain ps1 ps2 where p: "document_paths r1 = Some ps1" "document_paths r2 = Some ps2"
      "mset ps1 = mset ps2" by blast
    from p(3) have s: "sort ps1 = sort ps2" by (rule sort_perm)
    from p(3) have n: "ps1 = [] \<longleftrightarrow> ps2 = []" by (metis mset_zero_iff)
    have u: "(case Some ps of Some (q # qs) \<Rightarrow> path_updates sf st (sort (q # qs)) | _ \<Rightarrow> [])
        = path_updates sf st (sort ps)" for ps
      by (cases ps) simp_all
    have "(case document_paths r1 of Some (q # qs) \<Rightarrow> path_updates sf st (sort (q # qs)) | _ \<Rightarrow> [])
        = (case document_paths r2 of Some (q # qs) \<Rightarrow> path_updates sf st (sort (q # qs)) | _ \<Rightarrow> [])"
      unfolding p(1,2) u s ..
    with assms(1) st show ?thesis
      by (simp add: corpus_updates_def split: option.splits list.splits)
  qed
qed

text \<open>
  C8. The fingerprint is a function of the corpus identity and of the chunking
  configuration only: two retrievers with the same version tag, the same chunk size and the
  same chunk overlap, whose document paths are the same or a rearrangement of one another,
  on file systems that report the same modification times, have the same fingerprint,
  whatever their other fields hold.
\<close>

theorem version_hash_deterministic:
  assumes "s3_version_hash r1 = s3_version_hash r2"
    and "document_paths r1 = document_paths r2
         \<or> (\<exists>ps1 ps2. document_paths r1 = Some ps1 \<and> document_paths r2 = Some ps2
               \<and> mset ps1 = mset ps2)"
    and "\<forall>p. st p = st' p"
    and "chunk_size r1 = chunk_size r2"
    and "chunk_overlap r1 = chunk_overlap r2"
  shows "compute_version_hash sf st r1 = compute_version_hash sf st' r2"
  using corpus_updates_perm[OF assms(1,2,3), of sf] assms(4,5)
  by (simp add: compute_version_hash_def version_message_def)

lemma msg_paths_ba:
  "version_message str_whole example_mtime
     (init None (Some [''/cache/b.docx'', ''/cache/a.docx'']) None Map.empty) =
   ''/cache/a.docx1700000000.0/cache/b.docx1700000100.0chunk:600|overlap:150master_actions_v2''"
  by (simp add: version_message_def corpus_updates_def init_def sort_paths example_mtime_def
      str_whole_1 str_int_def str_nat.simps digit_char_def)

theorem version_hash_deterministic_witness:
  "mset [''/cache/b.docx'', ''/cache/a.docx''] = mset [''/cache/a.docx'', ''/cache/b.docx'']
   \<and> compute_version_hash str_whole example_mtime
        (init None (Some [''/cache/b.docx'', ''/cache/a.docx'']) None Map.empty) =
       ''b93eb2d3340bdf87a481e25a040cb046''
   \<and> compute_version_hash str_whole example_mtime
        ((init (Some ''/cache'') (Some [''/cache/a.docx'', ''/cache/b.docx'']) None Map.empty)
           \<lparr>top_k := 9\<rparr>) =
       ''b93eb2d3340bdf87a481e25a040cb046''"
proof -
  let ?r1 = "init None (Some [''/cache/b.docx'', ''/cache/a.docx'']) None Map.empty"
  let ?r2 = "(init (Some ''/cache'') (Some [''/cache/a.docx'', ''/cache/b.docx'']) None Map.empty)
           \<lparr>top_k := 9\<rparr>"
  have m: "mset [''/cache/b.docx'', ''/cache/a.docx''] = mset [''/cache/a.docx'', ''/cache/b.docx'']"
    by simp
  have h1: "compute_version_hash str_whole example_mtime ?r1 = ''b93eb2d3340bdf87a481e25a040cb046''"
    unfolding compute_version_hash_def msg_paths_ba by (rule md5_paths)
  have "compute_version_hash str_whole example_mtime ?r1
      = compute_version_hash str_whole example_mtime ?r2"
  proof (rule version_hash_deterministic)
    show "s3_version_hash ?r1 = s3_version_hash ?r2" by (simp add: init_def)
    show "document_paths ?r1 = document_paths ?r2
         \<or> (\<exists>ps1 ps2. document_paths ?r1 = Some ps1 \<and> document_paths ?r2 = Some ps2
               \<and> mset ps1 = mset ps2)"
      using m by (simp add: init_def)
    show "\<forall>p. example_mtime p = example_mtime p" by simp
    show "chunk_size ?r1 = chunk_size ?r2" by (simp add: init_def)
    show "chunk_overlap ?r1 = chunk_overlap ?r2" by (simp add: init_def)
  qed
  with h1 m show ?thesis by simp
qed

text \<open>
  C4, where it fails. A retriever with another \<open>top_k\<close> and other weights, and the same
  corpus identity, has the same fingerprint.
\<close>

theorem fingerprint_config_counterexample:
  "top_k (built_retriever\<lparr>top_k := 12, bm25_weight := 1 / 2, vector_weight := 1 / 2\<rparr>)
     \<noteq> top_k built_retriever
   \<and> compute_version_hash str_whole example_mtime
        (built_retriever\<lparr>top_k := 12, bm25_weight := 1 / 2, vector_weight := 1 / 2\<rparr>) =
       ''4623443c895f49ad93efbc092783a4c0''
   \<and> compute_version_hash str_whole example_mtime built_retriever =
       ''4623443c895f49ad93efbc092783a4c0''"
proof -
  let ?r = "built_retriever\<lparr>top_k := 12, bm25_weight := 1 / 2, vector_weight := 1 / 2\<rparr>"
  have m: "version_message str_whole example_mtime ?r = ''etag-1chunk:600|overlap:150master_actions_v2''"
    by (simp add: version_message_def corpus_updates_def built_retriever_def init_def str_int_def
        str_nat.simps digit_char_def)
  have t: "top_k ?r \<noteq> top_k built_retriever"
    by (simp add: built_retriever_def init_def)
  have h1: "compute_version_hash str_whole example_mtime ?r = ''4623443c895f49ad93efbc092783a4c0''"
    unfolding compute_version_hash_def m by (rule md5_etag_150)
  have h2: "compute_version_hash str_whole example_mtime built_retriever = ''4623443c895f49ad93efbc092783a4c0''"
    unfolding compute_version_hash_def msg_built by (rule md5_etag_150)
  from t h1 h2 show ?thesis by blast
qed

text \<open>
  C4, amended. With the corpus identity held fixed, the fingerprint does not depend on
  \<open>top_k\<close>, on the two weights or on the confidence threshold (which is no field of the
  retriever and no argument of the fingerprint). A change of the chunk size or of the chunk
  overlap changes the message that is hashed, and so the fingerprint unless MD5 maps the
  two messages to the same digest.
\<close>

theorem fingerprint_config:
  "compute_version_hash sf st (r\<lparr>top_k := k, bm25_weight := bw, vector_weight := vw\<rparr>)
     = compute_version_hash sf st r
   \<and> (s3_version_hash r1 = s3_version_hash r2 \<and> document_paths r1 = document_paths r2
        \<and> (chunk_size r1 \<noteq> chunk_size r2 \<or> chunk_overlap r1 \<noteq> chunk_overlap r2)
      \<longrightarrow> version_message sf st r1 \<noteq> version_message sf st r2
          \<and> ((md5_hexdigest (version_message sf st r1) = md5_hexdigest (version_message sf st r2)
                \<longrightarrow> version_message sf st r1 = version_message sf st r2)
               \<longrightarrow> compute_version_hash sf st r1 \<noteq> compute_version_hash sf st r2))"
proof (intro conjI impI)
  show "compute_version_hash sf st (r\<lparr>top_k := k, bm25_weight := bw, vector_weight := vw\<rparr>)
     = compute_version_hash sf st r"
    by (simp add: compute_version_hash_def version_message_def corpus_updates_def
        split: option.splits list.splits)
next
  assume a: "s3_version_hash r1 = s3_version_hash r2 \<and> document_paths r1 = document_paths r2
        \<and> (chunk_size r1 \<noteq> chunk_size r2 \<or> chunk_overlap r1 \<noteq> chunk_overlap r2)"
  then have c: "corpus_updates sf st r1 = corpus_updates sf st r2"
    by (simp add: corpus_updates_def split: option.splits list.splits)
  show m: "version_message sf st r1 \<noteq> version_message sf st r2"
    using version_message_config[OF c] a by blast
  assume "md5_hexdigest (version_message sf st r1) = md5_hexdigest (version_message sf st r2)
                \<longrightarrow> version_message sf st r1 = version_message sf st r2"
  with m show "compute_version_hash sf st r1 \<noteq> compute_version_hash sf st r2"
    by (simp add: compute_version_hash_def)
qed

lemma msg_built_151:
  "version_message sf st (built_retriever\<lparr>chunk_overlap := 151\<rparr>) =
     ''etag-1chunk:600|overlap:151master_actions_v2''"
  by (simp add: version_message_def corpus_updates_def built_retriever_def init_def str_int_def
      str_nat.simps digit_char_def)

theorem fingerprint_config_witness:
  "s3_version_hash built_retriever = s3_version_hash (built_retriever\<lparr>chunk_overlap := 151\<rparr>)
   \<and> document_paths built_retriever = document_paths (built_retriever\<lparr>chunk_overlap := 151\<rparr>)
   \<and> chunk_overlap built_retriever \<noteq> chunk_overlap (built_retriever\<lparr>chunk_overlap := 151\<rparr>)
   \<and> md5_hexdigest (version_message str_whole example_mtime built_retriever)
       \<noteq> md5_hexdigest (version_message str_whole example_mtime (built_retriever\<lparr>chunk_overlap := 151\<rparr>))
   \<and> compute_version_hash str_whole example_mtime built_retriever
       \<noteq> compute_version_hash str_whole example_mtime (built_retriever\<lparr>chunk_overlap := 151\<rparr>)"
proof -
  let ?r2 = "built_retriever\<lparr>chunk_overlap := 151\<rparr>"
  have f: "s3_version_hash built_retriever = s3_version_hash ?r2"
    "document_paths built_retriever = document_paths ?r2"
    "chunk_overlap built_retriever \<noteq> chunk_overlap ?r2"
    by (simp_all add: built_retriever_def init_def)
  have d: "md5_hexdigest (version_message str_whole example_mtime built_retriever)
       \<noteq> md5_hexdigest (version_message str_whole example_mtime ?r2)"
    unfolding msg_built msg_built_151 md5_etag_150 md5_etag_151 by simp
  from fingerprint_config[where sf = str_whole and st = example_mtime and r = built_retriever
      and ?r1.0 = built_retriever and ?r2.0 = ?r2] f d
  show ?thesis by blast
qed

section \<open>Loading and saving the index\<close>

lemma build_retrievers_store:
  assumes "vector_store r = Some store"
  shows "\<exists>r'. build_retrievers r = Inr r'"
  using assms by (simp add: build_retrievers_def Let_def)

lemma load_index_False:
  assumes "\<not> fst (load_index t d r current_hash)"
  shows "load_index t d r current_hash = (False, r)"
proof -
  have "build_retrievers (r\<lparr>vector_store := Some store, bm25 := b, documents := ds, index_hash := h\<rparr>)
      \<noteq> Inl e" for store b ds h e
    using build_retrievers_store[of "r\<lparr>vector_store := Some store, bm25 := b, documents := ds, index_hash := h\<rparr>" store]
    by auto
  then show ?thesis
    using assms unfolding load_index_def Let_def
    by (auto split: option.splits prod.splits sum.splits if_splits)
qed

lemma load_index_expired:
  assumes "bm25_file d = Some (mtime, payload)" and "(t - mtime) / 3600 > 24"
  shows "load_index t d r current_hash = (False, r)"
  using assms unfolding load_index_def Let_def by (simp split: option.splits)

lemma load_index_mismatch:
  assumes "bm25_file d = Some (mtime, Inr data)" and "pk_index_hash data \<noteq> Some current_hash"
  shows "load_index t d r current_hash = (False, r)"
  using assms unfolding load_index_def Let_def by (simp split: option.splits)

lemma save_index_file:
  assumes "vector_store r = Some store" and "bm25 r = Some index"
  shows "bm25_file (save_index t False Written d r) =
     Some (t, Inr \<lparr>pk_bm25 = index, pk_documents = documents r, pk_index_hash = index_hash r\<rparr>)"
  using assms unfolding save_index_def by simp

text \<open>
  C7. A persisted index whose file is older than 24 hours at the time of the load, or whose
  stored fingerprint is not the current one, is not loaded: \<open>_load_index\<close> answers false and
  leaves the retriever as it was. In particular, after an index was saved by a retriever
  whose \<open>index_hash\<close> is its own fingerprint, a retriever with the same corpus identity and
  the same chunk size but another chunk overlap does not load it, as long as MD5 does not
  map the two hashed messages to the same digest.
\<close>

theorem load_index_rejects:
  "(bm25_file d = Some (mtime, payload) \<and> (t - mtime) / 3600 > 24
      \<longrightarrow> load_index t d r current_hash = (False, r))
   \<and> (bm25_file d = Some (mtime, Inr data) \<and> pk_index_hash data \<noteq> Some current_hash
      \<longrightarrow> load_index t d r current_hash = (False, r))
   \<and> (vector_store ra = Some store \<and> bm25 ra = Some index
        \<and> index_hash ra = Some (compute_version_hash sf st ra)
        \<and> s3_version_hash rb = s3_version_hash ra \<and> document_paths rb = document_paths ra
        \<and> chunk_size rb = chunk_size ra \<and> chunk_overlap rb \<noteq> chunk_overlap ra
        \<and> (md5_hexdigest (version_message sf st ra) = md5_hexdigest (version_message sf st rb)
             \<longrightarrow> version_message sf st ra = version_message sf st rb)
      \<longrightarrow> load_index t (save_index t0 False Written d0 ra) rb (compute_version_hash sf st rb)
            = (False, rb))"
proof (intro conjI impI)
  assume "bm25_file d = Some (mtime, payload) \<and> (t - mtime) / 3600 > 24"
  then show "load_index t d r current_hash = (False, r)"
    using load_index_expired by blast
next
  assume "bm25_file d = Some (mtime, Inr data) \<and> pk_index_hash data \<noteq> Some current_hash"
  then show "load_index t d r current_hash = (False, r)"
    using load_index_mismatch by blast
next
  assume a: "vector_store ra = Some store \<and> bm25 ra = Some index
        \<and> index_hash ra = Some (compute_version_hash sf st ra)
        \<and> s3_version_hash rb = s3_version_hash ra \<and> document_paths rb = document_paths ra
        \<and> chunk_size rb = chunk_size ra \<and> chunk_overlap rb \<noteq> chunk_overlap ra
        \<and> (md5_hexdigest (version_message sf st ra) = md5_hexdigest (version_message sf st rb)
             \<longrightarrow> version_message sf st ra = version_message sf st rb)"
  let ?d = "save_index t0 False Written d0 ra"
  let ?data = "\<lparr>pk_bm25 = index, pk_documents = documents ra, pk_index_hash = index_hash ra\<rparr>"
  from a have f: "bm25_file ?d = Some (t0, Inr ?data)"
    using save_index_file by blast
  from a have c: "corpus_updates sf st ra = corpus_updates sf st rb"
    by (simp add: corpus_updates_def split: option.splits list.splits)
  from a version_message_config[OF c] have "version_message sf st ra \<noteq> version_message sf st rb"
    by auto
  with a have "compute_version_hash sf st ra \<noteq> compute_version_hash sf st rb"
    by (auto simp: compute_version_hash_def)
  with a have "pk_index_hash ?data \<noteq> Some (compute_version_hash sf st rb)"
    by simp
  from load_index_mismatch[OF f this]
  show "load_index t ?d rb (compute_version_hash sf st rb) = (False, rb)" .
qed


lemma built_index_hash:
  "index_hash built_retriever = Some (compute_version_hash str_whole example_mtime built_retriever)"
proof -
  have "compute_version_hash str_whole example_mtime built_retriever = ''4623443c895f49ad93efbc092783a4c0''"
    unfolding compute_version_hash_def msg_built by (rule md5_etag_150)
  then show ?thesis by (simp add: built_retriever_def)
qed

lemma saved_file:
  "bm25_file (save_index 1000 False Written empty_disk built_retriever) =
     Some (1000, Inr \<lparr>pk_bm25 = [[''holiday'', ''list'', ''for'', ''the'', ''year''], [''step'', ''1:'']],
                      pk_documents = [doc_a, doc_b],
                      pk_index_hash = Some ''4623443c895f49ad93efbc092783a4c0''\<rparr>)"
  by (simp add: save_index_def built_retriever_def empty_disk_def)

text \<open>The index that was saved is loaded by a retriever with the same fingerprint, within
  the 24 hours.\<close>

lemma load_index_accepts_example:
  "fst (load_index 2000 (save_index 1000 False Written empty_disk built_retriever)
          (init None None (Some ''etag-1'') Map.empty) ''4623443c895f49ad93efbc092783a4c0'')"
  by (simp add: load_index_def save_index_def built_retriever_def empty_disk_def init_def
      build_retrievers_def Let_def doc_a_def)

theorem load_index_rejects_witness:
  "bm25_file (save_index 1000 False Written empty_disk built_retriever) =
     Some (1000, Inr \<lparr>pk_bm25 = [[''holiday'', ''list'', ''for'', ''the'', ''year''], [''step'', ''1:'']],
                      pk_documents = [doc_a, doc_b],
                      pk_index_hash = Some ''4623443c895f49ad93efbc092783a4c0''\<rparr>)
   \<and> ((91000 :: rat) - 1000) / 3600 > 24
   \<and> load_index 91000 (save_index 1000 False Written empty_disk built_retriever)
        (init None None (Some ''etag-1'') Map.empty) ''4623443c895f49ad93efbc092783a4c0''
       = (False, init None None (Some ''etag-1'') Map.empty)
   \<and> Some ''4623443c895f49ad93efbc092783a4c0'' \<noteq> Some ''f5f9ea2673e79ed88e774899dbf416c2''
   \<and> load_index 2000 (save_index 1000 False Written empty_disk built_retriever)
        (init None None (Some ''etag-1'') Map.empty) ''f5f9ea2673e79ed88e774899dbf416c2''
       = (False, init None None (Some ''etag-1'') Map.empty)
   \<and> chunk_overlap (built_retriever\<lparr>chunk_overlap := 151\<rparr>) \<noteq> chunk_overlap built_retriever
   \<and> compute_version_hash str_whole example_mtime (built_retriever\<lparr>chunk_overlap := 151\<rparr>)
       = ''f5f9ea2673e79ed88e774899dbf416c2''
   \<and> load_index 2000 (save_index 1000 False Written empty_disk built_retriever)
        (built_retriever\<lparr>chunk_overlap := 151\<rparr>)
        (compute_version_hash str_whole example_mtime (built_retriever\<lparr>chunk_overlap := 151\<rparr>))
       = (False, built_retriever\<lparr>chunk_overlap := 151\<rparr>)"
proof -
  let ?d = "save_index 1000 False Written empty_disk built_retriever"
  let ?data = "\<lparr>pk_bm25 = [[''holiday'', ''list'', ''for'', ''the'', ''year''], [''step'', ''1:'']],
                      pk_documents = [doc_a, doc_b],
                      pk_index_hash = Some ''4623443c895f49ad93efbc092783a4c0''\<rparr>"
  let ?fresh = "init None None (Some ''etag-1'') Map.empty"
  let ?rb = "built_retriever\<lparr>chunk_overlap := 151\<rparr>"
  note T = load_index_rejects[where d = ?d and mtime = 1000 and payload = "Inr ?data" and data = ?data
      and t = 91000 and r = ?fresh and current_hash = "''4623443c895f49ad93efbc092783a4c0''"
      and ra = built_retriever and rb = ?rb and sf = str_whole and st = example_mtime
      and ?t0.0 = 1000 and ?d0.0 = empty_disk
      and store = "[doc_a, doc_b]"
      and index = "[[''holiday'', ''list'', ''for'', ''the'', ''year''], [''step'', ''1:'']]"]
  note U = load_index_rejects[where d = ?d and mtime = 1000 and payload = "Inr ?data" and data = ?data
      and t = 2000 and r = ?fresh and current_hash = "''f5f9ea2673e79ed88e774899dbf416c2''"
      and ra = built_retriever and rb = ?rb and sf = str_whole and st = example_mtime
      and ?t0.0 = 1000 and ?d0.0 = empty_disk
      and store = "[doc_a, doc_b]"
      and index = "[[''holiday'', ''list'', ''for'', ''the'', ''year''], [''step'', ''1:'']]"]
  have age: "((91000 :: rat) - 1000) / 3600 > 24" by simp
  have ne: "pk_index_hash ?data \<noteq> Some ''f5f9ea2673e79ed88e774899dbf416c2''" by simp
  have hb: "compute_version_hash str_whole example_mtime ?rb = ''f5f9ea2673e79ed88e774899dbf416c2''"
    unfolding compute_version_hash_def msg_built_151 by (rule md5_etag_151)
  have fields: "vector_store built_retriever = Some [doc_a, doc_b]"
    "bm25 built_retriever = Some [[''holiday'', ''list'', ''for'', ''the'', ''year''], [''step'', ''1:'']]"
    "s3_version_hash ?rb = s3_version_hash built_retriever"
    "document_paths ?rb = document_paths built_retriever"
    "chunk_size ?rb = chunk_size built_retriever"
    "chunk_overlap ?rb \<noteq> chunk_overlap built_retriever"
    by (simp_all add: built_retriever_def init_def)
  have nocoll: "md5_hexdigest (version_message str_whole example_mtime built_retriever)
       = md5_hexdigest (version_message str_whole example_mtime ?rb)
     \<longrightarrow> version_message str_whole example_mtime built_retriever
       = version_message str_whole example_mtime ?rb"
    unfolding msg_built msg_built_151 md5_etag_150 md5_etag_151 by simp
  from T saved_file age have c1: "load_index 91000 ?d ?fresh ''4623443c895f49ad93efbc092783a4c0'' = (False, ?fresh)"
    by blast
  from U saved_file ne have c2: "load_index 2000 ?d ?fresh ''f5f9ea2673e79ed88e774899dbf416c2'' = (False, ?fresh)"
    by blast
  from U fields built_index_hash nocoll
  have c3: "load_index 2000 ?d ?rb (compute_version_hash str_whole example_mtime ?rb) = (False, ?rb)"
    by blast
  from saved_file age c1 c2 c3 hb fields(6) show ?thesis by simp
qed

section \<open>Building the index\<close>

lemma msg_fresh:
  "version_message sf st fresh_retriever = ''chunk:600|overlap:150master_actions_v2''"
  by (simp add: version_message_def corpus_updates_def fresh_retriever_def init_def str_int_def
      str_nat.simps digit_char_def)

lemma md5_fresh:
  "md5_hexdigest ''chunk:600|overlap:150master_actions_v2'' = ''267b8b56d3c72538b26c6924b0349c2e''"
  by (simp add: md5_eval)

lemma hash_fresh:
  "compute_version_hash sf st fresh_retriever = ''267b8b56d3c72538b26c6924b0349c2e''"
  unfolding compute_version_hash_def msg_fresh by (rule md5_fresh)

lemma guide_tokens_eval:
  "split_ws [] (lower ''Step 1: open the Leave page. Click Apply.'') =
     [''step'', ''1:'', ''open'', ''the'', ''leave'', ''page.'', ''click'', ''apply.'']"
  by code_simp

lemma load_master_corpus: "load_master_document corpus_world =
   [\<lparr>page_content = ''Step 1: open the Leave page. Click Apply.'',
      md_source = Some ''guide.docx'', md_chunk_id = None\<rparr>]"
  by (simp add: load_master_document_def corpus_world_def)


lemma first_build:
  "build_index corpus_world empty_disk fresh_retriever False = Inr (guide_disk, guide_retriever)"
proof -
  have h: "compute_version_hash (bw_str_float corpus_world) (bw_st_mtime corpus_world) fresh_retriever
      = ''267b8b56d3c72538b26c6924b0349c2e''"
    by (rule hash_fresh)
  have l: "load_index (bw_now corpus_world) empty_disk fresh_retriever ''267b8b56d3c72538b26c6924b0349c2e''
      = (False, fresh_retriever)"
    by (simp add: load_index_def empty_disk_def)
  have c: "chunk_documents corpus_world fresh_retriever (load_master_document corpus_world) = [guide_doc]"
    unfolding load_master_corpus by (simp add: chunk_documents_def corpus_world_def guide_doc_def)
  have ne: "load_master_document corpus_world \<noteq> []"
    unfolding load_master_corpus by simp
  have t: "[split_ws [] (lower (page_content guide_doc))] = guide_tokens"
    by (simp add: guide_doc_def guide_tokens_def guide_tokens_eval)
  show ?thesis
    unfolding build_index_def h Let_def
    apply (simp add: l c ne t del: split_ws.simps)
    apply (simp add: build_retrievers_def save_index_def Let_def guide_retriever_def guide_disk_def
        fresh_retriever_def init_def corpus_world_def empty_disk_def)
    done
qed









section \<open>The ensemble\<close>

lemma rank_in_None: "rank_in c xs = None \<longleftrightarrow> c \<notin> set xs"
  by (induction xs) auto

lemma rank_in_Some:
  "rank_in c xs = Some i \<longleftrightarrow> i < length xs \<and> xs ! i = c \<and> c \<notin> set (take i xs)"
proof (induction xs arbitrary: i)
  case Nil
  then show ?case by simp
next
  case (Cons x xs)
  show ?case
  proof (cases "x = c")
    case True
    then show ?thesis by (cases i) auto
  next
    case False
    show ?thesis
    proof (cases i)
      case 0
      with False show ?thesis by auto
    next
      case (Suc j)
      with False Cons.IH[of j] show ?thesis by auto
    qed
  qed
qed

lemma rank_term_at:
  assumes "i < length xs" and "xs ! i = c" and "c \<notin> set (take i xs)"
  shows "rank_term weight xs c = weight / (of_nat i + 1)"
  using assms rank_in_Some[of c xs i] by (simp add: rank_term_def)

lemma rank_term_absent:
  assumes "c \<notin> set xs"
  shows "rank_term weight xs c = 0"
  using assms rank_in_None[of c xs] by (simp add: rank_term_def)

lemma build_retrievers_ensemble:
  assumes "documents r \<noteq> []" and "vector_store r = Some store"
  shows "build_retrievers r =
     Inr (r\<lparr>faiss_retriever := Some \<lparr>faiss_store = store, faiss_k = max (top_k r) 5 * 2\<rparr>,
            bm25_retriever := Some \<lparr>bm25_docs = documents r, bm25_k = max (top_k r) 5 * 2\<rparr>,
            ensemble_retriever := Some
              \<lparr>ens_bm25 = \<lparr>bm25_docs = documents r, bm25_k = max (top_k r) 5 * 2\<rparr>,
               ens_faiss = \<lparr>faiss_store = store, faiss_k = max (top_k r) 5 * 2\<rparr>,
               ens_weights = [bm25_weight r, vector_weight r]\<rparr>\<rparr>)"
  using assms by (simp add: build_retrievers_def Let_def)

text \<open>
  C5. \<open>_build_retrievers\<close> gives the sparse and the dense retriever the same number of
  candidates, \<open>k * 2\<close> with \<open>k = max(top_k, 5)\<close>, and hands the ensemble the weights
  \<open>[bm25_weight, vector_weight]\<close>; a retriever as constructed has \<open>top_k = 5\<close>, so \<open>k = 5\<close>,
  and the weights 0.6 and 0.4. With the rank fusion taken from the specification, a chunk
  at rank \<open>i\<close> of the sparse list and rank \<open>j\<close> of the dense list has the fused score
  \<open>bm25_weight / (i + 1) + vector_weight / (j + 1)\<close>, and a chunk that is absent from one of
  the lists has the term of the other list alone.
\<close>

theorem ensemble_fusion:
  assumes "documents r \<noteq> []" and "vector_store r = Some store"
  shows "\<exists>r' e. build_retrievers r = Inr r' \<and> ensemble_retriever r' = Some e
    \<and> bm25_k (ens_bm25 e) = max (top_k r) 5 * 2
    \<and> faiss_k (ens_faiss e) = max (top_k r) 5 * 2
    \<and> ens_weights e = [bm25_weight r, vector_weight r]
    \<and> (top_k r = 5 \<longrightarrow> bm25_k (ens_bm25 e) = 5 * 2 \<and> faiss_k (ens_faiss e) = 5 * 2)
    \<and> (\<forall>c i j. i < length (sparse q (max (top_k r) 5 * 2)) \<and> sparse q (max (top_k r) 5 * 2) ! i = c
                \<and> c \<notin> set (take i (sparse q (max (top_k r) 5 * 2)))
                \<and> j < length (dense q (max (top_k r) 5 * 2)) \<and> dense q (max (top_k r) 5 * 2) ! j = c
                \<and> c \<notin> set (take j (dense q (max (top_k r) 5 * 2)))
          \<longrightarrow> fused_score e sparse dense q c
                = bm25_weight r / (of_nat i + 1) + vector_weight r / (of_nat j + 1))
    \<and> (\<forall>c i. i < length (sparse q (max (top_k r) 5 * 2)) \<and> sparse q (max (top_k r) 5 * 2) ! i = c
                \<and> c \<notin> set (take i (sparse q (max (top_k r) 5 * 2)))
                \<and> c \<notin> set (dense q (max (top_k r) 5 * 2))
          \<longrightarrow> fused_score e sparse dense q c = bm25_weight r / (of_nat i + 1))
    \<and> (\<forall>c j. j < length (dense q (max (top_k r) 5 * 2)) \<and> dense q (max (top_k r) 5 * 2) ! j = c
                \<and> c \<notin> set (take j (dense q (max (top_k r) 5 * 2)))
                \<and> c \<notin> set (sparse q (max (top_k r) 5 * 2))
          \<longrightarrow> fused_score e sparse dense q c = vector_weight r / (of_nat j + 1))
    \<and> bm25_weight (init cdir paths s3 cache) = 6 / 10
    \<and> vector_weight (init cdir paths s3 cache) = 4 / 10
    \<and> top_k (init cdir paths s3 cache) = 5"
proof -
  let ?k = "max (top_k r) 5 * 2"
  let ?e = "\<lparr>ens_bm25 = \<lparr>bm25_docs = documents r, bm25_k = ?k\<rparr>,
             ens_faiss = \<lparr>faiss_store = store, faiss_k = ?k\<rparr>,
             ens_weights = [bm25_weight r, vector_weight r]\<rparr>"
  let ?r' = "r\<lparr>faiss_retriever := Some \<lparr>faiss_store = store, faiss_k = ?k\<rparr>,
            bm25_retriever := Some \<lparr>bm25_docs = documents r, bm25_k = ?k\<rparr>,
            ensemble_retriever := Some ?e\<rparr>"
  have b: "build_retrievers r = Inr ?r'" using build_retrievers_ensemble[OF assms] .
  have f: "fused_score ?e sparse dense q c =
      rank_term (bm25_weight r) (sparse q ?k) c + rank_term (vector_weight r) (dense q ?k) c" for c
    by (simp add: fused_score_def)
  have both: "\<forall>c i j. i < length (sparse q ?k) \<and> sparse q ?k ! i = c \<and> c \<notin> set (take i (sparse q ?k))
                \<and> j < length (dense q ?k) \<and> dense q ?k ! j = c \<and> c \<notin> set (take j (dense q ?k))
          \<longrightarrow> fused_score ?e sparse dense q c
                = bm25_weight r / (of_nat i + 1) + vector_weight r / (of_nat j + 1)"
    unfolding f by (auto simp: rank_term_at)
  have left: "\<forall>c i. i < length (sparse q ?k) \<and> sparse q ?k ! i = c \<and> c \<notin> set (take i (sparse q ?k))
                \<and> c \<notin> set (dense q ?k)
          \<longrightarrow> fused_score ?e sparse dense q c = bm25_weight r / (of_nat i + 1)"
    unfolding f by (auto simp: rank_term_at rank_term_absent)
  have right: "\<forall>c j. j < length (dense q ?k) \<and> dense q ?k ! j = c \<and> c \<notin> set (take j (dense q ?k))
                \<and> c \<notin> set (sparse q ?k)
          \<longrightarrow> fused_score ?e sparse dense q c = vector_weight r / (of_nat j + 1)"
    unfolding f by (auto simp: rank_term_at rank_term_absent)
  have e: "ensemble_retriever ?r' = Some ?e" by simp
  have ks: "bm25_k (ens_bm25 ?e) = ?k" "faiss_k (ens_faiss ?e) = ?k"
    "ens_weights ?e = [bm25_weight r, vector_weight r]"
    "top_k r = 5 \<longrightarrow> bm25_k (ens_bm25 ?e) = 5 * 2 \<and> faiss_k (ens_faiss ?e) = 5 * 2"
    by simp_all
  have i: "bm25_weight (init cdir paths s3 cache) = 6 / 10"
    "vector_weight (init cdir paths s3 cache) = 4 / 10" "top_k (init cdir paths s3 cache) = 5"
    by (simp_all add: init_def)
  show ?thesis
    apply (rule exI[of _ ?r'])
    apply (rule exI[of _ ?e])
    using b e ks both left right i
    apply (intro conjI)
    apply assumption+
    done
qed


theorem ensemble_fusion_witness:
  "documents (fresh_retriever\<lparr>documents := [guide_doc], vector_store := Some [guide_doc]\<rparr>) \<noteq> []
   \<and> vector_store (fresh_retriever\<lparr>documents := [guide_doc], vector_store := Some [guide_doc]\<rparr>)
        = Some [guide_doc]
   \<and> top_k (fresh_retriever\<lparr>documents := [guide_doc], vector_store := Some [guide_doc]\<rparr>) = 5
   \<and> (\<exists>r' e. build_retrievers (fresh_retriever\<lparr>documents := [guide_doc], vector_store := Some [guide_doc]\<rparr>)
                 = Inr r'
          \<and> ensemble_retriever r' = Some e
          \<and> bm25_k (ens_bm25 e) = 10 \<and> faiss_k (ens_faiss e) = 10
          \<and> ens_weights e = [6 / 10, 4 / 10]
          \<and> fused_score e (\<lambda>q k. take (nat k) [guide_doc, doc_a]) (\<lambda>q k. take (nat k) [doc_b, guide_doc])
                ''apply leave'' guide_doc = 6 / 10 / 1 + 4 / 10 / 2
          \<and> fused_score e (\<lambda>q k. take (nat k) [guide_doc, doc_a]) (\<lambda>q k. take (nat k) [doc_b, guide_doc])
                ''apply leave'' doc_a = 6 / 10 / 2
          \<and> fused_score e (\<lambda>q k. take (nat k) [guide_doc, doc_a]) (\<lambda>q k. take (nat k) [doc_b, guide_doc])
                ''apply leave'' doc_b = 4 / 10 / 1)"
proof -
  let ?r = "fresh_retriever\<lparr>documents := [guide_doc], vector_store := Some [guide_doc]\<rparr>"
  let ?sp = "\<lambda>(q::string) (k::int). take (nat k) [guide_doc, doc_a]"
  let ?dn = "\<lambda>(q::string) (k::int). take (nat k) [doc_b, guide_doc]"
  have d: "documents ?r \<noteq> []" by simp
  have v: "vector_store ?r = Some [guide_doc]" by simp
  have f: "top_k ?r = 5" "bm25_weight ?r = 6 / 10" "vector_weight ?r = 4 / 10"
    by (simp_all add: fresh_retriever_def init_def)
  have k: "max (top_k ?r) 5 * 2 = 10" using f(1) by simp
  have ne: "guide_doc \<noteq> doc_a" "guide_doc \<noteq> doc_b" "doc_a \<noteq> doc_b"
    by (simp_all add: guide_doc_def doc_a_def doc_b_def)
  from ensemble_fusion[OF d v, of ?sp "''apply leave''" ?dn None None None Map.empty]
  obtain r' e where b: "build_retrievers ?r = Inr r'" "ensemble_retriever r' = Some e"
    and ks: "bm25_k (ens_bm25 e) = max (top_k ?r) 5 * 2" "faiss_k (ens_faiss e) = max (top_k ?r) 5 * 2"
      "ens_weights e = [bm25_weight ?r, vector_weight ?r]"
    and both: "\<forall>c i j. i < length (?sp ''apply leave'' (max (top_k ?r) 5 * 2))
                \<and> ?sp ''apply leave'' (max (top_k ?r) 5 * 2) ! i = c
                \<and> c \<notin> set (take i (?sp ''apply leave'' (max (top_k ?r) 5 * 2)))
                \<and> j < length (?dn ''apply leave'' (max (top_k ?r) 5 * 2))
                \<and> ?dn ''apply leave'' (max (top_k ?r) 5 * 2) ! j = c
                \<and> c \<notin> set (take j (?dn ''apply leave'' (max (top_k ?r) 5 * 2)))
          \<longrightarrow> fused_score e ?sp ?dn ''apply leave'' c
                = bm25_weight ?r / (of_nat i + 1) + vector_weight ?r / (of_nat j + 1)"
    and left: "\<forall>c i. i < length (?sp ''apply leave'' (max (top_k ?r) 5 * 2))
                \<and> ?sp ''apply leave'' (max (top_k ?r) 5 * 2) ! i = c
                \<and> c \<notin> set (take i (?sp ''apply leave'' (max (top_k ?r) 5 * 2)))
                \<and> c \<notin> set (?dn ''apply leave'' (max (top_k ?r) 5 * 2))
          \<longrightarrow> fused_score e ?sp ?dn ''apply leave'' c = bm25_weight ?r / (of_nat i + 1)"
    and right: "\<forall>c j. j < length (?dn ''apply leave'' (max (top_k ?r) 5 * 2))
                \<and> ?dn ''apply leave'' (max (top_k ?r) 5 * 2) ! j = c
                \<and> c \<notin> set (take j (?dn ''apply leave'' (max (top_k ?r) 5 * 2)))
                \<and> c \<notin> set (?sp ''apply leave'' (max (top_k ?r) 5 * 2))
          \<longrightarrow> fused_score e ?sp ?dn ''apply leave'' c = vector_weight ?r / (of_nat j + 1)"
    by blast
  have s1: "fused_score e ?sp ?dn ''apply leave'' guide_doc = 6 / 10 / 1 + 4 / 10 / 2"
    using both[rule_format, of 0 guide_doc 1] ne unfolding k f by simp
  have s2: "fused_score e ?sp ?dn ''apply leave'' doc_a = 6 / 10 / 2"
    using left[rule_format, of 1 doc_a] ne unfolding k f by simp
  have s3: "fused_score e ?sp ?dn ''apply leave'' doc_b = 4 / 10 / 1"
    using right[rule_format, of 0 doc_b] ne unfolding k f by simp
  from ks have ks': "bm25_k (ens_bm25 e) = 10" "faiss_k (ens_faiss e) = 10" "ens_weights e = [6 / 10, 4 / 10]"
    unfolding k f by simp_all
  from b ks' s1 s2 s3 d v f(1) show ?thesis by blast
qed

section \<open>The search cache across builds\<close>

text \<open>The invariant of the search cache holds for an empty cache, and building or loading
  an index does not touch the cache.\<close>

lemma cache_sound_init: "cache_sound (init cdir paths s3 Map.empty)"
  by (simp add: cache_sound_def init_def)

lemma cache_sound_cong: "search_cache r' = search_cache r \<Longrightarrow> cache_sound r' = cache_sound r"
  by (simp add: cache_sound_def)

lemma build_retrievers_cache:
  "build_retrievers r = Inr r' \<Longrightarrow> search_cache r' = search_cache r"
  by (auto simp: build_retrievers_def Let_def split: if_splits option.splits)

lemma load_index_cache: "search_cache (snd (load_index t d r h)) = search_cache r"
proof (cases "fst (load_index t d r h)")
  case False
  then show ?thesis using load_index_False[of t d r h] by simp
next
  case True
  then show ?thesis
    unfolding load_index_def Let_def
    by (auto split: option.splits prod.splits sum.splits if_splits dest: build_retrievers_cache)
qed

lemma build_index_cache:
  assumes "build_index bw d r force_rebuild = Inr (d', r')"
  shows "search_cache r' = search_cache r"
proof -
  let ?h = "compute_version_hash (bw_str_float bw) (bw_st_mtime bw) r"
  obtain ok r1 where l: "load_index (bw_now bw) d r ?h = (ok, r1)"
    by (cases "load_index (bw_now bw) d r ?h") auto
  then have c1: "search_cache r1 = search_cache r"
    using load_index_cache[of "bw_now bw" d r ?h] by simp
  show ?thesis
    using assms l c1 unfolding build_index_def Let_def
    by (auto split: if_splits sum.splits dest!: build_retrievers_cache)
qed

lemma build_index_cache_sound:
  assumes "build_index bw d r force_rebuild = Inr (d', r')" and "cache_sound r"
  shows "cache_sound r'"
  using build_index_cache[OF assms(1)] assms(2) cache_sound_cong by blast

end
